theory Spec2Isabelle
  imports Complex_Main
begin

section \<open>Errors\<close>

text \<open>
  The Python exceptions that the list and array operations of \<^verbatim>\<open>bb88.py\<close> can raise.
  A function that can raise returns \<open>py_error + 'a\<close>, with \<open>Inl\<close> for the exception.
\<close>

datatype py_error = IndexError | ValueError

definition bind_err :: "py_error + 'a \<Rightarrow> ('a \<Rightarrow> py_error + 'b) \<Rightarrow> py_error + 'b" where
  "bind_err m f = (case m of Inl e \<Rightarrow> Inl e | Inr v \<Rightarrow> f v)"

section \<open>One-qubit circuits and their simulation\<close>

text \<open>
  \<^verbatim>\<open>QuantumCircuit(1, 1)\<close> is the list of the gates applied to qubit 0, in order:
  \<^verbatim>\<open>qc.x(0)\<close> appends \<open>Gate_x\<close> and \<^verbatim>\<open>qc.h(0)\<close> appends \<open>Gate_h\<close>. The program
  measures a circuit once, as its last operation, so the measurement is part of
  \<open>run_measure\<close> below and not a gate of the list.
\<close>

datatype gate = Gate_x | Gate_h

type_synonym circuit = "gate list"

text \<open>
  The simulator is a library, not code of the program. A circuit of X and H gates that
  starts in |0> is always in one of four states (up to a sign): the two states of the
  rectilinear basis and the two of the diagonal basis.
\<close>

datatype qstate = Zero | One | Plus | Minus

fun apply_gate :: "gate \<Rightarrow> qstate \<Rightarrow> qstate" where
  "apply_gate Gate_x Zero = One"
| "apply_gate Gate_x One = Zero"
| "apply_gate Gate_x Plus = Plus"
| "apply_gate Gate_x Minus = Minus"
| "apply_gate Gate_h Zero = Plus"
| "apply_gate Gate_h One = Minus"
| "apply_gate Gate_h Plus = Zero"
| "apply_gate Gate_h Minus = One"

definition final_state :: "circuit \<Rightarrow> qstate" where
  "final_state qc = foldl (\<lambda>s g. apply_gate g s) Zero qc"

text \<open>
  The same circuits on amplitudes: a state is the pair of the real amplitudes of |0> and
  |1>, X swaps them and H is the Hadamard matrix. \<open>prob_one\<close> is the probability that
  a shot reads 1.
\<close>

type_synonym amplitudes = "real \<times> real"

fun gate_matrix :: "gate \<Rightarrow> amplitudes \<Rightarrow> amplitudes" where
  "gate_matrix Gate_x (a, b) = (b, a)"
| "gate_matrix Gate_h (a, b) = ((a + b) / sqrt 2, (a - b) / sqrt 2)"

definition statevector :: "circuit \<Rightarrow> amplitudes" where
  "statevector qc = foldl (\<lambda>v g. gate_matrix g v) (1, 0) qc"

definition prob_one :: "amplitudes \<Rightarrow> real" where
  "prob_one v = (snd v)\<^sup>2"

fun amplitudes_of :: "qstate \<Rightarrow> amplitudes" where
  "amplitudes_of Zero = (1, 0)"
| "amplitudes_of One = (0, 1)"
| "amplitudes_of Plus = (1 / sqrt 2, 1 / sqrt 2)"
| "amplitudes_of Minus = (1 / sqrt 2, - (1 / sqrt 2))"

definition negated :: "amplitudes \<Rightarrow> amplitudes" where
  "negated v = (- fst v, - snd v)"

text \<open>
  \<^verbatim>\<open>simulator.run(transpile(qc, simulator)).result().get_counts()\<close> counts the outcomes
  of the shots, and \<^verbatim>\<open>int(max(counts, key=counts.get))\<close> is the outcome seen most often.
  In state \<open>Zero\<close> every shot reads 0 and in state \<open>One\<close> every shot reads 1. In the two
  diagonal states each shot is a fair coin: which outcome the shots favour is decided by
  the sampler, and is the argument \<open>sampled\<close> of the model.
\<close>

definition most_frequent :: "qstate \<Rightarrow> int \<Rightarrow> int" where
  "most_frequent s sampled = (case s of Zero \<Rightarrow> 0 | One \<Rightarrow> 1 | Plus \<Rightarrow> sampled | Minus \<Rightarrow> sampled)"

definition run_measure :: "circuit \<Rightarrow> int \<Rightarrow> int" where
  "run_measure qc sampled = most_frequent (final_state qc) sampled"

section \<open>Random draws\<close>

text \<open>
  \<^verbatim>\<open>np.random.randint(2, size=n)\<close> returns an array of \<open>n\<close> values, each 0 or 1. The
  values drawn are an argument: \<open>draw i\<close> is the value at position \<open>i\<close>, and \<open>bit_draw\<close>
  says what the generator guarantees about it.
\<close>

definition randint :: "(nat \<Rightarrow> int) \<Rightarrow> nat \<Rightarrow> int list" where
  "randint draw n = map draw [0..<n]"

definition bit_draw :: "(nat \<Rightarrow> int) \<Rightarrow> bool" where
  "bit_draw draw = (\<forall>i. draw i = 0 \<or> draw i = 1)"

text \<open>
  \<^verbatim>\<open>np.random.choice(a, k, replace=False)\<close> raises ValueError for an empty \<open>a\<close> unless
  no sample is taken, and for a sample larger than \<open>a\<close>; otherwise it returns \<open>k\<close>
  elements taken at different positions of \<open>a\<close>. The sample drawn is an argument:
  \<open>pick a k\<close>. The program calls it on a list of indices, which has no repeated
  element, so elements at different positions are different elements.
\<close>

definition np_random_choice :: "(nat list \<Rightarrow> nat \<Rightarrow> nat list) \<Rightarrow> nat list \<Rightarrow> nat \<Rightarrow> py_error + nat list" where
  "np_random_choice pick a k =
     (if a = [] \<and> k \<noteq> 0 then Inl ValueError
      else if length a < k then Inl ValueError
      else Inr (pick a k))"

definition choice_draw :: "(nat list \<Rightarrow> nat \<Rightarrow> nat list) \<Rightarrow> bool" where
  "choice_draw pick =
     (\<forall>a k. distinct a \<and> k \<le> length a \<longrightarrow>
        length (pick a k) = k \<and> distinct (pick a k) \<and> set (pick a k) \<subseteq> set a)"

section \<open>The protocol\<close>

definition num_qubits :: nat where
  "num_qubits = 32"

definition generate_alice_data :: "(nat \<Rightarrow> int) \<Rightarrow> (nat \<Rightarrow> int) \<Rightarrow> nat \<Rightarrow> int list \<times> int list" where
  "generate_alice_data draw_bits draw_bases nq = (randint draw_bits nq, randint draw_bases nq)"

text \<open>The body of the loop of \<^verbatim>\<open>prepare_qubits\<close>: the circuit of one position.\<close>

definition prepare_qubit :: "int \<Rightarrow> int \<Rightarrow> circuit" where
  "prepare_qubit bit' basis =
     (if bit' = 1 then [Gate_x] else []) @ (if basis = 1 then [Gate_h] else [])"

text \<open>
  \<^verbatim>\<open>prepare_qubits\<close> loops over \<^verbatim>\<open>range(num_qubits)\<close>, the module constant, and reads
  both arrays at every index: an array that is too short raises IndexError.
\<close>

definition prepare_qubits :: "int list \<Rightarrow> int list \<Rightarrow> py_error + circuit list" where
  "prepare_qubits alice_bits alice_bases =
     (if num_qubits \<le> length alice_bits \<and> num_qubits \<le> length alice_bases
      then Inr (map (\<lambda>i. prepare_qubit (alice_bits ! i) (alice_bases ! i)) [0..<num_qubits])
      else Inl IndexError)"

text \<open>
  The body of the loop of \<^verbatim>\<open>eve_intercepts\<close>: Eve measures a copy of the circuit in her
  basis (\<open>eve_measure\<close>) and builds a new circuit from the measured bit and her basis
  (\<open>eve_resend\<close>).
\<close>

definition eve_measure :: "circuit \<Rightarrow> int \<Rightarrow> int \<Rightarrow> int" where
  "eve_measure qc eve_basis sampled =
     (let qc_copy = (if eve_basis = 1 then qc @ [Gate_h] else qc)
      in run_measure qc_copy sampled)"

definition eve_resend :: "circuit \<Rightarrow> int \<Rightarrow> int \<Rightarrow> circuit" where
  "eve_resend qc eve_basis sampled =
     (let measured_bit = eve_measure qc eve_basis sampled
      in (if measured_bit = 1 then [Gate_x] else []) @ (if eve_basis = 1 then [Gate_h] else []))"

definition eve_intercepts ::
  "circuit list \<Rightarrow> nat \<Rightarrow> (nat \<Rightarrow> int) \<Rightarrow> (nat \<Rightarrow> int) \<Rightarrow> py_error + int list \<times> circuit list" where
  "eve_intercepts circuits nq draw_bases sampled =
     (let eve_bases = randint draw_bases nq in
      if length circuits \<le> length eve_bases
      then Inr (eve_bases,
                map (\<lambda>i. eve_resend (circuits ! i) (eve_bases ! i) (sampled i)) [0..<length circuits])
      else Inl IndexError)"

text \<open>The body of the loop of \<^verbatim>\<open>bob_measures\<close>.\<close>

definition bob_measure :: "circuit \<Rightarrow> int \<Rightarrow> int \<Rightarrow> int" where
  "bob_measure qc bob_basis sampled =
     run_measure (if bob_basis = 1 then qc @ [Gate_h] else qc) sampled"

definition bob_measures ::
  "circuit list \<Rightarrow> nat \<Rightarrow> (nat \<Rightarrow> int) \<Rightarrow> (nat \<Rightarrow> int) \<Rightarrow> py_error + int list \<times> int list" where
  "bob_measures circuits nq draw_bases sampled =
     (let bob_bases = randint draw_bases nq in
      if length circuits \<le> length bob_bases
      then Inr (bob_bases,
                map (\<lambda>i. bob_measure (circuits ! i) (bob_bases ! i) (sampled i)) [0..<length circuits])
      else Inl IndexError)"

text \<open>
  \<^verbatim>\<open>alice_bases == bob_bases\<close> on numpy arrays compares position by position when the
  two arrays have the same length, compares the single element of a one-element array
  with every element of the other (broadcasting), and raises ValueError for any other
  pair of lengths. Every array of a session has \<^verbatim>\<open>num_qubits\<close> elements.
\<close>

definition np_equal :: "int list \<Rightarrow> int list \<Rightarrow> py_error + bool list" where
  "np_equal xs ys =
     (if length xs = length ys then Inr (map2 (=) xs ys)
      else if length xs = 1 then Inr (map (\<lambda>y. xs ! 0 = y) ys)
      else if length ys = 1 then Inr (map (\<lambda>x. x = ys ! 0) xs)
      else Inl ValueError)"

text \<open>\<^verbatim>\<open>np.where(mask)[0]\<close>: the indices where the array holds True, ascending.\<close>

definition np_where :: "bool list \<Rightarrow> nat list" where
  "np_where flags = filter (\<lambda>i. flags ! i) [0..<length flags]"

text \<open>\<^verbatim>\<open>xs[indices]\<close> with an index array: IndexError when an index is out of range.\<close>

definition np_take :: "int list \<Rightarrow> nat list \<Rightarrow> py_error + int list" where
  "np_take xs indices =
     (if list_all (\<lambda>i. i < length xs) indices then Inr (map (\<lambda>i. xs ! i) indices)
      else Inl IndexError)"

definition reconcile_bases ::
  "int list \<Rightarrow> int list \<Rightarrow> int list \<Rightarrow> int list \<Rightarrow> py_error + int list \<times> int list" where
  "reconcile_bases alice_bases bob_bases alice_bits bob_bits =
     bind_err (np_equal alice_bases bob_bases) (\<lambda>matching_bases.
       let shared_key_indices = np_where matching_bases in
       bind_err (np_take alice_bits shared_key_indices) (\<lambda>alice_shared_key.
       bind_err (np_take bob_bits shared_key_indices) (\<lambda>bob_shared_key.
         Inr (alice_shared_key, bob_shared_key))))"

definition check_correct_bases :: "int list \<Rightarrow> int list \<Rightarrow> py_error + bool list" where
  "check_correct_bases alice_bases bob_bases = np_equal alice_bases bob_bases"

definition format_correct_bases :: "bool list \<Rightarrow> string" where
  "format_correct_bases correct_bases = map (\<lambda>base. if base then CHR ''K'' else CHR '' '') correct_bases"

definition create_correct_bits :: "int list \<Rightarrow> bool list \<Rightarrow> int list" where
  "create_correct_bits bob_bits correct_bases =
     map2 (\<lambda>bit' correct. if correct then bit' else - 1) bob_bits correct_bases"

text \<open>
  The loop of \<^verbatim>\<open>randomly_store_half\<close> that copies the selected bits:
  \<^verbatim>\<open>half_correct_bits[index] = correct_bits[index]\<close>, IndexError out of range.
\<close>

fun store_selected :: "int list \<Rightarrow> nat list \<Rightarrow> int list \<Rightarrow> py_error + int list" where
  "store_selected correct_bits [] half_correct_bits = Inr half_correct_bits"
| "store_selected correct_bits (index # rest) half_correct_bits =
     (if index < length correct_bits \<and> index < length half_correct_bits
      then store_selected correct_bits rest (half_correct_bits[index := correct_bits ! index])
      else Inl IndexError)"

definition valid_indices_of :: "int list \<Rightarrow> nat list" where
  "valid_indices_of correct_bits = filter (\<lambda>i. correct_bits ! i \<noteq> - 1) [0..<length correct_bits]"

definition randomly_store_half :: "int list \<Rightarrow> (nat list \<Rightarrow> nat \<Rightarrow> nat list) \<Rightarrow> py_error + int list" where
  "randomly_store_half correct_bits pick =
     (let valid_indices = valid_indices_of correct_bits in
      bind_err (np_random_choice pick valid_indices (length valid_indices div 2)) (\<lambda>selected_indices.
        store_selected correct_bits selected_indices (replicate (length correct_bits) (- 1))))"

text \<open>
  \<^verbatim>\<open>confirm_by_alice\<close> reads \<^verbatim>\<open>alice_bits[i]\<close> at every index of
  \<^verbatim>\<open>half_correct_bits\<close>, and \<^verbatim>\<open>create_outcome\<close> reads \<^verbatim>\<open>half_correct_bits[i]\<close> at every
  index of \<^verbatim>\<open>correct_bits\<close>.
\<close>

definition confirm_by_alice :: "int list \<Rightarrow> int list \<Rightarrow> py_error + string" where
  "confirm_by_alice alice_bits half_correct_bits =
     (if length half_correct_bits \<le> length alice_bits
      then Inr (map (\<lambda>i. let bit' = half_correct_bits ! i in
                          if bit' = alice_bits ! i then CHR ''T''
                          else if bit' \<noteq> - 1 then CHR ''F'' else CHR '' '')
                    [0..<length half_correct_bits])
      else Inl IndexError)"

definition create_outcome :: "int list \<Rightarrow> int list \<Rightarrow> py_error + int list" where
  "create_outcome correct_bits half_correct_bits =
     (if length correct_bits \<le> length half_correct_bits
      then Inr (map (\<lambda>i. if half_correct_bits ! i = - 1 then correct_bits ! i else - 1)
                    [0..<length correct_bits])
      else Inl IndexError)"

text \<open>
  \<^verbatim>\<open>(total_intercepted / num_qubits) * 100\<close> divides by the module constant 32 and
  multiplies by 100: both steps are exact in binary floating point for a count of list
  elements, so the rational value is the float the program computes.
\<close>

definition calculate_eavesdropping_ratio :: "string \<Rightarrow> rat" where
  "calculate_eavesdropping_ratio confirmed_by_alice =
     (let total_intercepted = count_list confirmed_by_alice (CHR ''F'')
      in (of_nat total_intercepted / of_nat num_qubits) * 100)"

section \<open>A session\<close>

text \<open>
  What one session takes from outside, in the order the session asks for it: the arrays
  drawn by \<^verbatim>\<open>np.random.randint\<close>, the outcome that the simulator's shots favour at each
  position (used where the measured state is diagonal) for Eve and for Bob, and the
  sample drawn by \<^verbatim>\<open>np.random.choice\<close>. \<open>rng_ok\<close> says what the libraries guarantee.
\<close>

record rng =
  draw_alice_bits :: "nat \<Rightarrow> int"
  draw_alice_bases :: "nat \<Rightarrow> int"
  draw_eve_bases :: "nat \<Rightarrow> int"
  sampled_eve :: "nat \<Rightarrow> int"
  draw_bob_bases :: "nat \<Rightarrow> int"
  sampled_bob :: "nat \<Rightarrow> int"
  pick_half :: "nat list \<Rightarrow> nat \<Rightarrow> nat list"

definition rng_ok :: "rng \<Rightarrow> bool" where
  "rng_ok r =
     (bit_draw (draw_alice_bits r) \<and> bit_draw (draw_alice_bases r) \<and>
      bit_draw (draw_eve_bases r) \<and> bit_draw (sampled_eve r) \<and>
      bit_draw (draw_bob_bases r) \<and> bit_draw (sampled_bob r) \<and>
      choice_draw (pick_half r))"

text \<open>The dictionary \<^verbatim>\<open>data\<close> that \<^verbatim>\<open>collect_data\<close> fills, one field per key.\<close>

record data =
  d_alice_bits :: "int list"
  d_alice_bases :: "int list"
  d_eve_bases :: "int list option"
  d_bob_bases :: "int list"
  d_bob_bits :: "int list"
  d_alice_shared_key :: "int list"
  d_bob_shared_key :: "int list"
  d_correct_bases :: string
  d_correct_bits :: "int list"
  d_half_correct_bits :: "int list"
  d_confirmed_by_alice :: string
  d_outcome :: "int list"
  d_eavesdropping_ratio :: rat

definition collect_data :: "bool \<Rightarrow> rng \<Rightarrow> py_error + data" where
  "collect_data eavesdropping_enabled r =
     (let (alice_bits, alice_bases) =
            generate_alice_data (draw_alice_bits r) (draw_alice_bases r) num_qubits in
      bind_err (prepare_qubits alice_bits alice_bases) (\<lambda>circuits.
      bind_err (if eavesdropping_enabled
                then bind_err (eve_intercepts circuits num_qubits (draw_eve_bases r) (sampled_eve r))
                       (\<lambda>(eve_bases, eve_tampered_circuits). Inr (Some eve_bases, eve_tampered_circuits))
                else Inr (None, circuits)) (\<lambda>(eve_bases, circuits).
      bind_err (bob_measures circuits num_qubits (draw_bob_bases r) (sampled_bob r)) (\<lambda>(bob_bases, bob_bits).
      bind_err (reconcile_bases alice_bases bob_bases alice_bits bob_bits) (\<lambda>(alice_shared_key, bob_shared_key).
      bind_err (check_correct_bases alice_bases bob_bases) (\<lambda>correct_bases.
      let correct_bits = create_correct_bits bob_bits correct_bases in
      bind_err (randomly_store_half correct_bits (pick_half r)) (\<lambda>half_correct_bits.
      bind_err (confirm_by_alice alice_bits half_correct_bits) (\<lambda>confirmed_by_alice.
      bind_err (create_outcome correct_bits half_correct_bits) (\<lambda>outcome.
        Inr \<lparr> d_alice_bits = alice_bits,
              d_alice_bases = alice_bases,
              d_eve_bases = eve_bases,
              d_bob_bases = bob_bases,
              d_bob_bits = bob_bits,
              d_alice_shared_key = alice_shared_key,
              d_bob_shared_key = bob_shared_key,
              d_correct_bases = format_correct_bases correct_bases,
              d_correct_bits = correct_bits,
              d_half_correct_bits = half_correct_bits,
              d_confirmed_by_alice = confirmed_by_alice,
              d_outcome = outcome,
              d_eavesdropping_ratio = calculate_eavesdropping_ratio confirmed_by_alice \<rparr>)))))))))"

section \<open>The test harness\<close>

text \<open>
  The four counters of \<^verbatim>\<open>results\<close> in \<^verbatim>\<open>run_tests\<close>. The function prints them as a
  table; the model returns them.
\<close>

record results =
  true_detected :: nat
  true_non_detected :: nat
  false_detected :: nat
  false_non_detected :: nat

definition tally :: "bool \<Rightarrow> bool \<Rightarrow> results \<Rightarrow> results" where
  "tally eavesdropping_enabled eavesdropping_detected res =
     (if eavesdropping_enabled
      then (if eavesdropping_detected
            then res\<lparr>true_detected := true_detected res + 1\<rparr>
            else res\<lparr>true_non_detected := true_non_detected res + 1\<rparr>)
      else (if eavesdropping_detected
            then res\<lparr>false_detected := false_detected res + 1\<rparr>
            else res\<lparr>false_non_detected := false_non_detected res + 1\<rparr>))"

text \<open>
  The loop of \<^verbatim>\<open>run_tests\<close> over the trial numbers: \<open>coin t\<close> is the value
  \<^verbatim>\<open>np.random.choice([True, False])\<close> returns in trial \<open>t\<close> and \<open>source t\<close> holds the
  draws of its session. An exception of a session ends the loop.
\<close>

fun run_trials :: "(nat \<Rightarrow> bool) \<Rightarrow> (nat \<Rightarrow> rng) \<Rightarrow> nat list \<Rightarrow> results \<Rightarrow> py_error + results" where
  "run_trials coin source [] res = Inr res"
| "run_trials coin source (t # ts) res =
     (let eavesdropping_enabled = coin t in
      bind_err (collect_data eavesdropping_enabled (source t)) (\<lambda>d.
        let eavesdropping_detected = (d_eavesdropping_ratio d > 0) in
        run_trials coin source ts (tally eavesdropping_enabled eavesdropping_detected res)))"

definition no_results :: results where
  "no_results = \<lparr> true_detected = 0, true_non_detected = 0, false_detected = 0, false_non_detected = 0 \<rparr>"

text \<open>\<^verbatim>\<open>range(num_tests)\<close> is empty for a \<^verbatim>\<open>num_tests\<close> that is zero or negative.\<close>

definition run_tests :: "int \<Rightarrow> (nat \<Rightarrow> bool) \<Rightarrow> (nat \<Rightarrow> rng) \<Rightarrow> py_error + results" where
  "run_tests num_tests coin source = run_trials coin source [0..<nat num_tests] no_results"

section \<open>Concrete draws\<close>

text \<open>
  Draws used to run the model on concrete sessions. \<open>first_k\<close> is the sample that takes
  the first \<open>k\<close> elements of the population.
\<close>

definition first_k :: "nat list \<Rightarrow> nat \<Rightarrow> nat list" where
  "first_k a k = take k a"

text \<open>Every draw is 0: Eve measures in Alice's basis at every position.\<close>

definition quiet_rng :: rng where
  "quiet_rng =
     \<lparr> draw_alice_bits = (\<lambda>i. 0), draw_alice_bases = (\<lambda>i. 0),
       draw_eve_bases = (\<lambda>i. 0), sampled_eve = (\<lambda>i. 0),
       draw_bob_bases = (\<lambda>i. 0), sampled_bob = (\<lambda>i. 0),
       pick_half = first_k \<rparr>"

text \<open>
  Eve measures in the wrong basis at every position, and the sampler favours 0 for her
  and for Bob, which is the bit Alice sent.
\<close>

definition lucky_rng :: rng where
  "lucky_rng =
     \<lparr> draw_alice_bits = (\<lambda>i. 0), draw_alice_bases = (\<lambda>i. 0),
       draw_eve_bases = (\<lambda>i. 1), sampled_eve = (\<lambda>i. 0),
       draw_bob_bases = (\<lambda>i. 0), sampled_bob = (\<lambda>i. 0),
       pick_half = first_k \<rparr>"

text \<open>Bob's basis differs from Alice's at every position.\<close>

definition mismatch_rng :: rng where
  "mismatch_rng =
     \<lparr> draw_alice_bits = (\<lambda>i. 1), draw_alice_bases = (\<lambda>i. 0),
       draw_eve_bases = (\<lambda>i. 0), sampled_eve = (\<lambda>i. 0),
       draw_bob_bases = (\<lambda>i. 1), sampled_bob = (\<lambda>i. 0),
       pick_half = first_k \<rparr>"

text \<open>A session in which bits and bases vary from position to position.\<close>

definition busy_rng :: rng where
  "busy_rng =
     \<lparr> draw_alice_bits = (\<lambda>i. if even i then 1 else 0),
       draw_alice_bases = (\<lambda>i. if i mod 3 = 0 then 1 else 0),
       draw_eve_bases = (\<lambda>i. if i mod 5 = 0 then 1 else 0), sampled_eve = (\<lambda>i. 0),
       draw_bob_bases = (\<lambda>i. if i mod 4 = 0 then 1 else 0), sampled_bob = (\<lambda>i. 1),
       pick_half = first_k \<rparr>"

definition busy_source :: "nat \<Rightarrow> rng" where
  "busy_source t = busy_rng"

definition quiet_source :: "nat \<Rightarrow> rng" where
  "quiet_source t = quiet_rng"

definition alternating_coin :: "nat \<Rightarrow> bool" where
  "alternating_coin t = even t"

definition always_eve :: "nat \<Rightarrow> bool" where
  "always_eve t = True"

definition all_zeros :: "nat \<Rightarrow> int" where
  "all_zeros i = 0"

definition all_ones :: "nat \<Rightarrow> int" where
  "all_ones i = 1"

section \<open>The simulation of a circuit\<close>

lemma bind_err_Inr [simp]: "bind_err (Inr v) f = f v"
  by (simp add: bind_err_def)

lemma bind_err_Inl [simp]: "bind_err (Inl e) f = Inl e"
  by (simp add: bind_err_def)

lemma final_state_snoc: "final_state (qc @ [g]) = apply_gate g (final_state qc)"
  by (simp add: final_state_def)

lemma statevector_snoc: "statevector (qc @ [g]) = gate_matrix g (statevector qc)"
  by (simp add: statevector_def)

text \<open>
  The four states are the amplitudes of the circuit, up to a sign that no measurement
  sees: the table \<open>apply_gate\<close> is what the two matrices do.
\<close>

lemma gate_matrix_negated: "gate_matrix g (negated v) = negated (gate_matrix g v)"
  by (cases g; cases v) (simp_all add: negated_def field_simps)

lemma gate_matrix_amplitudes:
  "gate_matrix g (amplitudes_of s) = amplitudes_of (apply_gate g s) \<or>
   gate_matrix g (amplitudes_of s) = negated (amplitudes_of (apply_gate g s))"
  by (cases g; cases s) (simp_all add: negated_def field_simps)

lemma negated_negated: "negated (negated v) = v"
  by (simp add: negated_def)

lemma statevector_final_state:
  "statevector qc = amplitudes_of (final_state qc) \<or>
   statevector qc = negated (amplitudes_of (final_state qc))"
proof (induction qc rule: rev_induct)
  case Nil
  show ?case by (simp add: statevector_def final_state_def)
next
  case (snoc g qc)
  from gate_matrix_amplitudes [of g "final_state qc"] snoc show ?case
    by (auto simp: statevector_snoc final_state_snoc gate_matrix_negated negated_negated)
qed

lemma prob_one_negated: "prob_one (negated v) = prob_one v"
  by (simp add: prob_one_def negated_def)

text \<open>
  A shot reads 1 with probability 0 in state \<open>Zero\<close>, 1 in state \<open>One\<close> and one half in
  the two diagonal states: this is why \<open>most_frequent\<close> is fixed in the first two and
  left to the sampler in the last two.
\<close>

lemma prob_one_statevector:
  "prob_one (statevector qc) =
     (case final_state qc of Zero \<Rightarrow> 0 | One \<Rightarrow> 1 | Plus \<Rightarrow> 1 / 2 | Minus \<Rightarrow> 1 / 2)"
proof -
  have "prob_one (statevector qc) = prob_one (amplitudes_of (final_state qc))"
    using statevector_final_state [of qc] by (auto simp: prob_one_negated)
  then show ?thesis
    by (cases "final_state qc") (simp_all add: prob_one_def power2_eq_square)
qed

section \<open>Preparing and measuring one qubit\<close>

lemma final_state_prepare_qubit:
  "final_state (prepare_qubit b s) =
     (if b = 1 then (if s = 1 then Minus else One) else (if s = 1 then Plus else Zero))"
  by (simp add: prepare_qubit_def final_state_def)

lemma bob_measure_prepare_qubit:
  "b = 0 \<or> b = 1 \<Longrightarrow> bob_measure (prepare_qubit b s) s sampled = b"
  by (auto simp: bob_measure_def run_measure_def most_frequent_def final_state_snoc
      final_state_prepare_qubit)

lemma eve_measure_prepare_qubit:
  "b = 0 \<or> b = 1 \<Longrightarrow> eve_measure (prepare_qubit b s) s sampled = b"
  by (auto simp: eve_measure_def run_measure_def most_frequent_def final_state_snoc
      final_state_prepare_qubit)

text \<open>Eve builds her circuit the way Alice does, from her measured bit and her basis.\<close>

lemma eve_resend_prepare_qubit:
  "eve_resend qc eve_basis sampled = prepare_qubit (eve_measure qc eve_basis sampled) eve_basis"
  by (simp add: eve_resend_def prepare_qubit_def)

lemma eve_measure_bit:
  "sampled = 0 \<or> sampled = 1 \<Longrightarrow> eve_measure qc e sampled = 0 \<or> eve_measure qc e sampled = 1"
  by (cases "final_state (if e = 1 then qc @ [Gate_h] else qc)")
     (auto simp: eve_measure_def run_measure_def most_frequent_def)

lemma bob_measure_bit:
  "sampled = 0 \<or> sampled = 1 \<Longrightarrow> bob_measure qc e sampled = 0 \<or> bob_measure qc e sampled = 1"
  by (cases "final_state (if e = 1 then qc @ [Gate_h] else qc)")
     (auto simp: bob_measure_def run_measure_def most_frequent_def)

text \<open>
  With different bases the measured circuit ends in one of the two diagonal states,
  whatever the prepared bit: each shot reads 1 with probability one half, and the bit
  returned is the outcome that the sampler favours. The law of that outcome is the
  sampler's; the model has no probability measure for it.
\<close>

lemma final_state_mismatched_basis:
  assumes "s = 0 \<or> s = 1" and "s' = 0 \<or> s' = 1" and "s \<noteq> s'"
  shows "final_state (if s' = 1 then prepare_qubit b s @ [Gate_h] else prepare_qubit b s)
           = (if b = 1 then Minus else Plus)"
  using assms by (auto simp: final_state_snoc final_state_prepare_qubit)

lemma mismatched_basis_shot_probability:
  assumes "s = 0 \<or> s = 1" and "s' = 0 \<or> s' = 1" and "s \<noteq> s'"
  shows "prob_one (statevector
           (if s' = 1 then prepare_qubit b s @ [Gate_h] else prepare_qubit b s)) = 1 / 2"
  unfolding prob_one_statevector final_state_mismatched_basis [OF assms]
  by simp

lemma mismatched_basis_outcome_is_sampled:
  assumes "s = 0 \<or> s = 1" and "s' = 0 \<or> s' = 1" and "s \<noteq> s'"
  shows "bob_measure (prepare_qubit b s) s' sampled = sampled"
    and "eve_measure (prepare_qubit b s) s' sampled = sampled"
  using final_state_mismatched_basis [OF assms, of b]
  by (simp_all add: bob_measure_def eve_measure_def run_measure_def most_frequent_def)

text \<open>
  One qubit prepared from a bit \<open>b\<close> and a basis \<open>s\<close> and measured in the same basis gives
  \<open>b\<close>, whatever the sampler does: for Bob measuring Alice's qubit, for Eve measuring
  Alice's qubit, and for Bob measuring the qubit that Eve prepared from her measured bit
  in her basis.
\<close>

lemma matching_basis_qubit:
  assumes "b = 0 \<or> b = 1" and "sampled_e = 0 \<or> sampled_e = 1"
  shows "bob_measure (prepare_qubit b s) s sampled = b \<and>
         eve_measure (prepare_qubit b s) s sampled = b \<and>
         bob_measure (eve_resend qc s sampled_e) s sampled = eve_measure qc s sampled_e"
  using assms bob_measure_prepare_qubit eve_measure_prepare_qubit eve_measure_bit [of sampled_e qc s]
  by (simp add: eve_resend_prepare_qubit)

section \<open>The functions on the arrays of a session\<close>

lemma length_randint [simp]: "length (randint draw n) = n"
  by (simp add: randint_def)

lemma nth_randint [simp]: "i < n \<Longrightarrow> randint draw n ! i = draw i"
  by (simp add: randint_def)

lemma prepare_qubits_randint:
  "prepare_qubits (randint db num_qubits) (randint ds num_qubits) =
     Inr (map (\<lambda>i. prepare_qubit (db i) (ds i)) [0..<num_qubits])"
  by (simp add: prepare_qubits_def)

lemma eve_intercepts_Inr:
  "length circuits = nq \<Longrightarrow>
   eve_intercepts circuits nq draw sampled =
     Inr (randint draw nq, map (\<lambda>i. eve_resend (circuits ! i) (draw i) (sampled i)) [0..<nq])"
  by (simp add: eve_intercepts_def Let_def)

lemma bob_measures_Inr:
  "length circuits = nq \<Longrightarrow>
   bob_measures circuits nq draw sampled =
     Inr (randint draw nq, map (\<lambda>i. bob_measure (circuits ! i) (draw i) (sampled i)) [0..<nq])"
  by (simp add: bob_measures_def Let_def)

lemma np_where_map2:
  "length xs = length ys \<Longrightarrow>
   np_where (map2 (=) xs ys) = filter (\<lambda>i. xs ! i = ys ! i) [0..<length xs]"
  by (auto simp: np_where_def intro: filter_cong)

lemma np_take_Inr:
  "\<forall>i \<in> set indices. i < length xs \<Longrightarrow> np_take xs indices = Inr (map (\<lambda>i. xs ! i) indices)"
  by (simp add: np_take_def list_all_iff)

lemma reconcile_bases_Inr:
  assumes "length alice_bases = n" "length bob_bases = n"
    and "length alice_bits = n" "length bob_bits = n"
  shows "reconcile_bases alice_bases bob_bases alice_bits bob_bits =
     Inr (map (\<lambda>i. alice_bits ! i) (filter (\<lambda>i. alice_bases ! i = bob_bases ! i) [0..<n]),
          map (\<lambda>i. bob_bits ! i) (filter (\<lambda>i. alice_bases ! i = bob_bases ! i) [0..<n]))"
  using assms
  by (simp add: reconcile_bases_def np_equal_def np_where_map2 np_take_Inr Let_def)

lemma store_selected_Inr:
  "length half = length cb \<Longrightarrow> \<forall>i \<in> set sel. i < length cb \<Longrightarrow>
   store_selected cb sel half =
     Inr (map (\<lambda>i. if i \<in> set sel then cb ! i else half ! i) [0..<length cb])"
proof (induction sel arbitrary: half)
  case Nil
  then show ?case using map_nth [of half] by simp
next
  case (Cons x sel)
  have "store_selected cb (x # sel) half = store_selected cb sel (half[x := cb ! x])"
    using Cons.prems by simp
  also have "\<dots> = Inr (map (\<lambda>i. if i \<in> set sel then cb ! i else half[x := cb ! x] ! i) [0..<length cb])"
    using Cons.prems by (intro Cons.IH) simp_all
  also have "\<dots> = Inr (map (\<lambda>i. if i \<in> set (x # sel) then cb ! i else half ! i) [0..<length cb])"
    using Cons.prems by (auto simp: nth_list_update)
  finally show ?case .
qed

lemma distinct_valid_indices_of [simp]: "distinct (valid_indices_of cb)"
  by (simp add: valid_indices_of_def)

lemma set_valid_indices_of:
  "set (valid_indices_of cb) = {i. i < length cb \<and> cb ! i \<noteq> - 1}"
  by (auto simp: valid_indices_of_def)

lemma choice_drawD:
  assumes "choice_draw pick" "distinct a" "k \<le> length a"
  shows "length (pick a k) = k" "distinct (pick a k)" "set (pick a k) \<subseteq> set a"
  using assms unfolding choice_draw_def by blast+

lemma randomly_store_half_Inr:
  assumes "choice_draw pick"
  shows "randomly_store_half cb pick =
     Inr (map (\<lambda>i. if i \<in> set (pick (valid_indices_of cb) (length (valid_indices_of cb) div 2))
                    then cb ! i else - 1) [0..<length cb])"
proof -
  let ?a = "valid_indices_of cb"
  let ?k = "length ?a div 2"
  have k: "?k \<le> length ?a" by simp
  have sub: "set (pick ?a ?k) \<subseteq> set ?a"
    using choice_drawD(3) [OF assms _ k] by simp
  have choice: "np_random_choice pick ?a ?k = Inr (pick ?a ?k)"
    by (auto simp: np_random_choice_def)
  have "store_selected cb (pick ?a ?k) (replicate (length cb) (- 1)) =
      Inr (map (\<lambda>i. if i \<in> set (pick ?a ?k) then cb ! i else replicate (length cb) (- 1) ! i)
             [0..<length cb])"
    using sub by (intro store_selected_Inr) (auto simp: set_valid_indices_of)
  then show ?thesis
    by (simp add: randomly_store_half_def Let_def choice cong: map_cong)
qed


lemma collect_data_session:
  assumes "choice_draw (pick_half r)"
  obtains d where "collect_data en r = Inr d"
    and "d_alice_bits d = randint (draw_alice_bits r) num_qubits"
    and "d_alice_bases d = randint (draw_alice_bases r) num_qubits"
    and "d_eve_bases d = (if en then Some (randint (draw_eve_bases r) num_qubits) else None)"
    and "d_bob_bases d = randint (draw_bob_bases r) num_qubits"
    and "d_bob_bits d =
           map (\<lambda>i. bob_measure
                  (if en
                   then eve_resend (prepare_qubit (draw_alice_bits r i) (draw_alice_bases r i))
                          (draw_eve_bases r i) (sampled_eve r i)
                   else prepare_qubit (draw_alice_bits r i) (draw_alice_bases r i))
                  (draw_bob_bases r i) (sampled_bob r i)) [0..<num_qubits]"
    and "reconcile_bases (d_alice_bases d) (d_bob_bases d) (d_alice_bits d) (d_bob_bits d) =
           Inr (d_alice_shared_key d, d_bob_shared_key d)"
    and "d_correct_bases d = format_correct_bases (map2 (=) (d_alice_bases d) (d_bob_bases d))"
    and "d_correct_bits d =
           create_correct_bits (d_bob_bits d) (map2 (=) (d_alice_bases d) (d_bob_bases d))"
    and "randomly_store_half (d_correct_bits d) (pick_half r) = Inr (d_half_correct_bits d)"
    and "confirm_by_alice (d_alice_bits d) (d_half_correct_bits d) = Inr (d_confirmed_by_alice d)"
    and "create_outcome (d_correct_bits d) (d_half_correct_bits d) = Inr (d_outcome d)"
    and "d_eavesdropping_ratio d = calculate_eavesdropping_ratio (d_confirmed_by_alice d)"
proof -
  define alice_bits where "alice_bits = randint (draw_alice_bits r) num_qubits"
  define alice_bases where "alice_bases = randint (draw_alice_bases r) num_qubits"
  define bob_bases where "bob_bases = randint (draw_bob_bases r) num_qubits"
  define sent where "sent = map (\<lambda>i. prepare_qubit (draw_alice_bits r i) (draw_alice_bases r i)) [0..<num_qubits]"
  define transit where "transit =
    (if en then map (\<lambda>i. eve_resend (sent ! i) (draw_eve_bases r i) (sampled_eve r i)) [0..<num_qubits]
     else sent)"
  define bob_bits where "bob_bits =
    map (\<lambda>i. bob_measure (transit ! i) (draw_bob_bases r i) (sampled_bob r i)) [0..<num_qubits]"
  define correct_bits where "correct_bits = create_correct_bits bob_bits (map2 (=) alice_bases bob_bases)"
  define half where "half = map (\<lambda>i. if i \<in> set (pick_half r (valid_indices_of correct_bits)
          (length (valid_indices_of correct_bits) div 2)) then correct_bits ! i else - 1) [0..<length correct_bits]"
  have len: "length alice_bits = num_qubits" "length alice_bases = num_qubits"
    "length bob_bases = num_qubits" "length sent = num_qubits" "length transit = num_qubits"
    "length bob_bits = num_qubits" "length correct_bits = num_qubits" "length half = num_qubits"
    by (simp_all add: alice_bits_def alice_bases_def bob_bases_def sent_def transit_def
        bob_bits_def correct_bits_def half_def create_correct_bits_def)
  have prep: "prepare_qubits alice_bits alice_bases = Inr sent"
    by (simp add: alice_bits_def alice_bases_def sent_def prepare_qubits_randint)
  have eve: "eve_intercepts sent num_qubits (draw_eve_bases r) (sampled_eve r) =
      Inr (randint (draw_eve_bases r) num_qubits, transit)" if en
    using that len by (simp add: eve_intercepts_Inr transit_def)
  have bob: "bob_measures transit num_qubits (draw_bob_bases r) (sampled_bob r) = Inr (bob_bases, bob_bits)"
    using len by (simp add: bob_measures_Inr bob_bases_def bob_bits_def)
  have half: "randomly_store_half correct_bits (pick_half r) = Inr half"
    by (simp add: randomly_store_half_Inr [OF assms] half_def)
  obtain confirmed where conf: "confirm_by_alice alice_bits half = Inr confirmed"
    using len by (simp add: confirm_by_alice_def)
  obtain outcome where out: "create_outcome correct_bits half = Inr outcome"
    using len by (simp add: create_outcome_def)
  obtain ka kb where rec: "reconcile_bases alice_bases bob_bases alice_bits bob_bits = Inr (ka, kb)"
    using reconcile_bases_Inr [OF len(2) len(3) len(1) len(6)] by simp
  have eq: "np_equal alice_bases bob_bases = Inr (map2 (=) alice_bases bob_bases)"
    using len by (simp add: np_equal_def)
  have trans_nth: "transit ! i =
      (if en
       then eve_resend (prepare_qubit (draw_alice_bits r i) (draw_alice_bases r i))
              (draw_eve_bases r i) (sampled_eve r i)
       else prepare_qubit (draw_alice_bits r i) (draw_alice_bases r i))" if "i < num_qubits" for i
    using that by (simp add: transit_def sent_def)
  let ?d = "\<lparr> d_alice_bits = alice_bits,
              d_alice_bases = alice_bases,
              d_eve_bases = (if en then Some (randint (draw_eve_bases r) num_qubits) else None),
              d_bob_bases = bob_bases,
              d_bob_bits = bob_bits,
              d_alice_shared_key = ka,
              d_bob_shared_key = kb,
              d_correct_bases = format_correct_bases (map2 (=) alice_bases bob_bases),
              d_correct_bits = correct_bits,
              d_half_correct_bits = half,
              d_confirmed_by_alice = confirmed,
              d_outcome = outcome,
              d_eavesdropping_ratio = calculate_eavesdropping_ratio confirmed \<rparr>"
  have "collect_data en r = Inr ?d"
  proof (cases en)
    case True
    then show ?thesis
      using prep eve bob rec eq half conf out
      by (simp add: collect_data_def generate_alice_data_def check_correct_bases_def
          alice_bits_def [symmetric] alice_bases_def [symmetric] correct_bits_def [symmetric])
  next
    case False
    then have "transit = sent" by (simp add: transit_def)
    with False show ?thesis
      using prep bob rec eq half conf out
      by (simp add: collect_data_def generate_alice_data_def check_correct_bases_def
          alice_bits_def [symmetric] alice_bases_def [symmetric] correct_bits_def [symmetric])
  qed
  moreover have "d_bob_bits ?d = map (\<lambda>i. bob_measure
                  (if en
                   then eve_resend (prepare_qubit (draw_alice_bits r i) (draw_alice_bases r i))
                          (draw_eve_bases r i) (sampled_eve r i)
                   else prepare_qubit (draw_alice_bits r i) (draw_alice_bases r i))
                  (draw_bob_bases r i) (sampled_bob r i)) [0..<num_qubits]"
    by (simp add: bob_bits_def trans_nth)
  ultimately show thesis
    using rec half conf out
    by (intro that [of ?d])
      (simp_all add: alice_bits_def alice_bases_def bob_bases_def correct_bits_def)
qed


lemma length_filter_upt: "length (filter P [0..<n]) = card {i. i < n \<and> P i}"
proof -
  have "card (set (filter P [0..<n])) = length (filter P [0..<n])"
    by (rule distinct_card) simp
  moreover have "set (filter P [0..<n]) = {i. i < n \<and> P i}"
    by auto
  ultimately show ?thesis
    by (simp only:)
qed

lemma rng_okD:
  assumes "rng_ok r"
  shows "choice_draw (pick_half r)"
    and "draw_alice_bits r i = 0 \<or> draw_alice_bits r i = 1"
    and "sampled_eve r i = 0 \<or> sampled_eve r i = 1"
    and "sampled_bob r i = 0 \<or> sampled_bob r i = 1"
  using assms by (simp_all add: rng_ok_def bit_draw_def)

lemma randomly_store_half_nth:
  assumes "randomly_store_half cb pick = Inr half" and "choice_draw pick"
  shows "length half = length cb"
    and "i < length cb \<Longrightarrow>
         half ! i = (if i \<in> set (pick (valid_indices_of cb) (length (valid_indices_of cb) div 2))
                     then cb ! i else - 1)"
  using assms by (auto simp: randomly_store_half_Inr)

lemma selected_valid:
  assumes "choice_draw pick"
  shows "set (pick (valid_indices_of cb) (length (valid_indices_of cb) div 2)) \<subseteq>
         {i. i < length cb \<and> cb ! i \<noteq> - 1}"
  using choice_drawD(3) [OF assms distinct_valid_indices_of, of "length (valid_indices_of cb) div 2" cb]
  by (simp add: set_valid_indices_of)

lemma confirm_by_alice_count:
  assumes "confirm_by_alice alice_bits half = Inr confirmed"
  shows "length confirmed = length half"
    and "count_list confirmed (CHR ''F'') =
         card {i. i < length half \<and> half ! i \<noteq> - 1 \<and> half ! i \<noteq> alice_bits ! i}"
proof -
  let ?v = "\<lambda>i. let bit' = half ! i in
              if bit' = alice_bits ! i then CHR ''T''
              else if bit' \<noteq> - 1 then CHR ''F'' else CHR '' ''"
  from assms have c: "confirmed = map ?v [0..<length half]"
    by (auto simp: confirm_by_alice_def split: if_splits)
  show "length confirmed = length half" by (simp add: c)
  have "count_list confirmed (CHR ''F'') = length (filter (\<lambda>i. CHR ''F'' = ?v i) [0..<length half])"
    by (simp add: c count_list_eq_length_filter filter_map comp_def)
  also have "\<dots> = card {i. i < length half \<and> CHR ''F'' = ?v i}"
    by (rule length_filter_upt)
  also have "{i. i < length half \<and> CHR ''F'' = ?v i} =
      {i. i < length half \<and> half ! i \<noteq> - 1 \<and> half ! i \<noteq> alice_bits ! i}"
    by (auto simp: Let_def)
  finally show "count_list confirmed (CHR ''F'') =
         card {i. i < length half \<and> half ! i \<noteq> - 1 \<and> half ! i \<noteq> alice_bits ! i}" .
qed

lemma create_outcome_nth:
  assumes "create_outcome cb half = Inr outcome"
  shows "length outcome = length cb"
    and "i < length cb \<Longrightarrow> outcome ! i = (if half ! i = - 1 then cb ! i else - 1)"
  using assms by (auto simp: create_outcome_def split: if_splits)

lemma ratio_bounds:
  assumes "length confirmed = num_qubits"
  shows "0 \<le> calculate_eavesdropping_ratio confirmed"
    and "calculate_eavesdropping_ratio confirmed \<le> 100"
proof -
  have "count_list confirmed (CHR ''F'') \<le> num_qubits"
    using count_le_length [of confirmed "CHR ''F''"] assms by simp
  then have "(of_nat (count_list confirmed (CHR ''F'')) :: rat) \<le> of_nat num_qubits"
    by (simp only: of_nat_le_iff)
  then show "calculate_eavesdropping_ratio confirmed \<le> 100"
    by (simp add: calculate_eavesdropping_ratio_def num_qubits_def)
  show "0 \<le> calculate_eavesdropping_ratio confirmed"
    by (simp add: calculate_eavesdropping_ratio_def)
qed


lemma session_lengths:
  assumes "d_alice_bits d = randint da num_qubits"
    and "d_alice_bases d = randint ds num_qubits"
    and "d_bob_bases d = randint db num_qubits"
    and "d_bob_bits d = map f [0..<num_qubits]"
    and "d_correct_bits d =
           create_correct_bits (d_bob_bits d) (map2 (=) (d_alice_bases d) (d_bob_bases d))"
  shows "length (d_alice_bits d) = num_qubits" "length (d_alice_bases d) = num_qubits"
    "length (d_bob_bases d) = num_qubits" "length (d_bob_bits d) = num_qubits"
    "length (d_correct_bits d) = num_qubits"
  using assms by (simp_all add: create_correct_bits_def)

lemma session_correct_bits_nth:
  assumes "length (d_alice_bases d) = num_qubits" "length (d_bob_bases d) = num_qubits"
    "length (d_bob_bits d) = num_qubits"
    and "d_correct_bits d =
           create_correct_bits (d_bob_bits d) (map2 (=) (d_alice_bases d) (d_bob_bases d))"
    and "i < num_qubits"
  shows "d_correct_bits d ! i =
           (if d_alice_bases d ! i = d_bob_bases d ! i then d_bob_bits d ! i else - 1)"
  using assms by (simp add: create_correct_bits_def)

text \<open>The facts about a session that the claims use, position by position.\<close>

text \<open>A session with draws that the generators can produce raises no exception.\<close>

lemma session_total:
  assumes "rng_ok r"
  shows "\<exists>d. collect_data en r = Inr d"
  using collect_data_session [OF rng_okD(1) [OF assms], of en] by blast

lemma session_props:
  fixes d :: data
  assumes run0: "collect_data en r = Inr d" and ok: "rng_ok r"
  defines "sel \<equiv> pick_half r (valid_indices_of (d_correct_bits d))
                       (length (valid_indices_of (d_correct_bits d)) div 2)"
  shows session_len: "length (d_alice_bits d) = num_qubits" "length (d_alice_bases d) = num_qubits"
      "length (d_bob_bases d) = num_qubits" "length (d_bob_bits d) = num_qubits"
      "length (d_correct_bits d) = num_qubits" "length (d_half_correct_bits d) = num_qubits"
      "length (d_confirmed_by_alice d) = num_qubits" "length (d_outcome d) = num_qubits"
    and session_eve_bases:
      "d_eve_bases d = (if en then Some (randint (draw_eve_bases r) num_qubits) else None)"
    and session_alice_bits: "\<And>i. i < num_qubits \<Longrightarrow> d_alice_bits d ! i = draw_alice_bits r i"
    and session_alice_bases: "\<And>i. i < num_qubits \<Longrightarrow> d_alice_bases d ! i = draw_alice_bases r i"
    and session_bob_bases: "\<And>i. i < num_qubits \<Longrightarrow> d_bob_bases d ! i = draw_bob_bases r i"
    and session_bob_bits: "\<And>i. i < num_qubits \<Longrightarrow> d_bob_bits d ! i =
           bob_measure
             (if en
              then eve_resend (prepare_qubit (draw_alice_bits r i) (draw_alice_bases r i))
                     (draw_eve_bases r i) (sampled_eve r i)
              else prepare_qubit (draw_alice_bits r i) (draw_alice_bases r i))
             (draw_bob_bases r i) (sampled_bob r i)"
    and session_alice_key: "d_alice_shared_key d = map (\<lambda>i. d_alice_bits d ! i)
           (filter (\<lambda>i. d_alice_bases d ! i = d_bob_bases d ! i) [0..<num_qubits])"
    and session_bob_key: "d_bob_shared_key d = map (\<lambda>i. d_bob_bits d ! i)
           (filter (\<lambda>i. d_alice_bases d ! i = d_bob_bases d ! i) [0..<num_qubits])"
    and session_correct_bits: "\<And>i. i < num_qubits \<Longrightarrow> d_correct_bits d ! i =
           (if d_alice_bases d ! i = d_bob_bases d ! i then d_bob_bits d ! i else - 1)"
    and session_sample: "distinct sel"
      "length sel = length (valid_indices_of (d_correct_bits d)) div 2"
      "set sel \<subseteq> {i. i < num_qubits \<and> d_correct_bits d ! i \<noteq> - 1}"
    and session_half: "\<And>i. i < num_qubits \<Longrightarrow> d_half_correct_bits d ! i =
           (if i \<in> set sel then d_correct_bits d ! i else - 1)"
    and session_count: "count_list (d_confirmed_by_alice d) (CHR ''F'') =
           card {i. i < num_qubits \<and> d_half_correct_bits d ! i \<noteq> - 1 \<and>
                    d_half_correct_bits d ! i \<noteq> d_alice_bits d ! i}"
    and session_outcome: "\<And>i. i < num_qubits \<Longrightarrow> d_outcome d ! i =
           (if d_half_correct_bits d ! i = - 1 then d_correct_bits d ! i else - 1)"
    and session_ratio_eq:
      "d_eavesdropping_ratio d = calculate_eavesdropping_ratio (d_confirmed_by_alice d)"
proof -
  have pick: "choice_draw (pick_half r)"
    using ok by (rule rng_okD(1))
  from collect_data_session [OF pick, of en] obtain d' where
    run: "collect_data en r = Inr d'"
    and ab: "d_alice_bits d' = randint (draw_alice_bits r) num_qubits"
    and as: "d_alice_bases d' = randint (draw_alice_bases r) num_qubits"
    and eb: "d_eve_bases d' = (if en then Some (randint (draw_eve_bases r) num_qubits) else None)"
    and bs: "d_bob_bases d' = randint (draw_bob_bases r) num_qubits"
    and bb: "d_bob_bits d' =
           map (\<lambda>i. bob_measure
                  (if en
                   then eve_resend (prepare_qubit (draw_alice_bits r i) (draw_alice_bases r i))
                          (draw_eve_bases r i) (sampled_eve r i)
                   else prepare_qubit (draw_alice_bits r i) (draw_alice_bases r i))
                  (draw_bob_bases r i) (sampled_bob r i)) [0..<num_qubits]"
    and rec: "reconcile_bases (d_alice_bases d') (d_bob_bases d') (d_alice_bits d') (d_bob_bits d') =
           Inr (d_alice_shared_key d', d_bob_shared_key d')"
    and cb: "d_correct_bits d' =
           create_correct_bits (d_bob_bits d') (map2 (=) (d_alice_bases d') (d_bob_bases d'))"
    and half: "randomly_store_half (d_correct_bits d') (pick_half r) = Inr (d_half_correct_bits d')"
    and conf: "confirm_by_alice (d_alice_bits d') (d_half_correct_bits d') = Inr (d_confirmed_by_alice d')"
    and out: "create_outcome (d_correct_bits d') (d_half_correct_bits d') = Inr (d_outcome d')"
    and ratio: "d_eavesdropping_ratio d' = calculate_eavesdropping_ratio (d_confirmed_by_alice d')"
    by blast
  note len = session_lengths [OF ab as bs bb cb]
  define sel' where "sel' = pick_half r (valid_indices_of (d_correct_bits d'))
                 (length (valid_indices_of (d_correct_bits d')) div 2)"
  have len_half: "length (d_half_correct_bits d') = num_qubits"
    using randomly_store_half_nth(1) [OF half pick] len by simp
  have len_conf: "length (d_confirmed_by_alice d') = num_qubits"
    using confirm_by_alice_count(1) [OF conf] len_half by simp
  have len_out: "length (d_outcome d') = num_qubits"
    using create_outcome_nth(1) [OF out] len by simp
  have keys: "d_alice_shared_key d' = map (\<lambda>i. d_alice_bits d' ! i)
           (filter (\<lambda>i. d_alice_bases d' ! i = d_bob_bases d' ! i) [0..<num_qubits])"
      "d_bob_shared_key d' = map (\<lambda>i. d_bob_bits d' ! i)
           (filter (\<lambda>i. d_alice_bases d' ! i = d_bob_bases d' ! i) [0..<num_qubits])"
    using rec reconcile_bases_Inr [OF len(2) len(3) len(1) len(4)] by simp_all
  have sel_props: "distinct sel'" "length sel' = length (valid_indices_of (d_correct_bits d')) div 2"
    using choice_drawD [OF pick distinct_valid_indices_of,
        of "length (valid_indices_of (d_correct_bits d')) div 2" "d_correct_bits d'"]
    by (simp_all add: sel'_def)
  have sel_sub: "set sel' \<subseteq> {i. i < num_qubits \<and> d_correct_bits d' ! i \<noteq> - 1}"
    using selected_valid [OF pick, of "d_correct_bits d'"] len by (simp add: sel'_def)
  have half_nth: "d_half_correct_bits d' ! i = (if i \<in> set sel' then d_correct_bits d' ! i else - 1)"
    if "i < num_qubits" for i
    using randomly_store_half_nth(2) [OF half pick, of i] that len by (simp add: sel'_def)
  have cnt: "count_list (d_confirmed_by_alice d') (CHR ''F'') =
           card {i. i < num_qubits \<and> d_half_correct_bits d' ! i \<noteq> - 1 \<and>
                    d_half_correct_bits d' ! i \<noteq> d_alice_bits d' ! i}"
    using confirm_by_alice_count(2) [OF conf] len_half by simp
  have out_nth: "d_outcome d' ! i =
           (if d_half_correct_bits d' ! i = - 1 then d_correct_bits d' ! i else - 1)"
    if "i < num_qubits" for i
    using create_outcome_nth(2) [OF out, of i] that len by simp
  have eq: "d = d'"
    using run run0 by simp
  have sel: "sel = sel'"
    by (simp add: sel_def sel'_def eq)
  show "length (d_alice_bits d) = num_qubits" "length (d_alice_bases d) = num_qubits"
      "length (d_bob_bases d) = num_qubits" "length (d_bob_bits d) = num_qubits"
      "length (d_correct_bits d) = num_qubits" "length (d_half_correct_bits d) = num_qubits"
      "length (d_confirmed_by_alice d) = num_qubits" "length (d_outcome d) = num_qubits"
    using len len_half len_conf len_out by (simp_all add: eq)
  show "d_eve_bases d = (if en then Some (randint (draw_eve_bases r) num_qubits) else None)"
    using eb by (simp add: eq)
  show "d_alice_bits d ! i = draw_alice_bits r i" if "i < num_qubits" for i
    using that by (simp add: eq ab)
  show "d_alice_bases d ! i = draw_alice_bases r i" if "i < num_qubits" for i
    using that by (simp add: eq as)
  show "d_bob_bases d ! i = draw_bob_bases r i" if "i < num_qubits" for i
    using that by (simp add: eq bs)
  show "d_bob_bits d ! i =
           bob_measure
             (if en
              then eve_resend (prepare_qubit (draw_alice_bits r i) (draw_alice_bases r i))
                     (draw_eve_bases r i) (sampled_eve r i)
              else prepare_qubit (draw_alice_bits r i) (draw_alice_bases r i))
             (draw_bob_bases r i) (sampled_bob r i)" if "i < num_qubits" for i
    using that by (simp add: eq bb)
  show "d_alice_shared_key d = map (\<lambda>i. d_alice_bits d ! i)
           (filter (\<lambda>i. d_alice_bases d ! i = d_bob_bases d ! i) [0..<num_qubits])"
    and "d_bob_shared_key d = map (\<lambda>i. d_bob_bits d ! i)
           (filter (\<lambda>i. d_alice_bases d ! i = d_bob_bases d ! i) [0..<num_qubits])"
    unfolding eq by (rule keys)+
  show "d_correct_bits d ! i =
           (if d_alice_bases d ! i = d_bob_bases d ! i then d_bob_bits d ! i else - 1)"
    if "i < num_qubits" for i
    unfolding eq by (rule session_correct_bits_nth [OF len(2) len(3) len(4) cb that])
  show "distinct sel" "length sel = length (valid_indices_of (d_correct_bits d)) div 2"
    "set sel \<subseteq> {i. i < num_qubits \<and> d_correct_bits d ! i \<noteq> - 1}"
    using sel_props sel_sub by (simp_all add: sel eq)
  show "d_half_correct_bits d ! i = (if i \<in> set sel then d_correct_bits d ! i else - 1)"
    if "i < num_qubits" for i
    unfolding eq sel by (rule half_nth [OF that])
  show "count_list (d_confirmed_by_alice d) (CHR ''F'') =
           card {i. i < num_qubits \<and> d_half_correct_bits d ! i \<noteq> - 1 \<and>
                    d_half_correct_bits d ! i \<noteq> d_alice_bits d ! i}"
    unfolding eq by (rule cnt)
  show "d_outcome d ! i =
           (if d_half_correct_bits d ! i = - 1 then d_correct_bits d ! i else - 1)"
    if "i < num_qubits" for i
    unfolding eq by (rule out_nth [OF that])
  show "d_eavesdropping_ratio d = calculate_eavesdropping_ratio (d_confirmed_by_alice d)"
    unfolding eq by (rule ratio)
qed

section \<open>Sessions\<close>

lemma choice_draw_first_k: "choice_draw first_k"
  by (auto simp: choice_draw_def first_k_def dest: in_set_takeD)

lemma rng_ok_quiet_rng: "rng_ok quiet_rng"
  by (simp add: rng_ok_def quiet_rng_def bit_draw_def choice_draw_first_k)

lemma rng_ok_lucky_rng: "rng_ok lucky_rng"
  by (simp add: rng_ok_def lucky_rng_def bit_draw_def choice_draw_first_k)

lemma rng_ok_mismatch_rng: "rng_ok mismatch_rng"
  by (simp add: rng_ok_def mismatch_rng_def bit_draw_def choice_draw_first_k)

lemma rng_ok_busy_rng: "rng_ok busy_rng"
  by (simp add: rng_ok_def busy_rng_def bit_draw_def choice_draw_first_k)

text \<open>Two sessions computed from \<open>busy_rng\<close>, with and without Eve.\<close>

lemma busy_session_with_eve:
  "map_sum id (\<lambda>d. (d_alice_shared_key d, d_bob_shared_key d, d_confirmed_by_alice d,
                     d_eavesdropping_ratio d))
     (collect_data True busy_rng) =
   Inr ([1, 0, 1, 0, 0, 1, 0, 1, 0, 1, 0, 0, 1, 0, 1, 0, 1, 0, 0],
        [1, 0, 1, 1, 0, 1, 0, 1, 0, 1, 0, 0, 1, 0, 1, 1, 1, 0, 0],
        ''TTT  F T  TTTT                  '', 25 / 8)"
  by code_simp

lemma busy_session_without_eve:
  "map_sum id (\<lambda>d. (d_alice_shared_key d, d_bob_shared_key d, d_confirmed_by_alice d,
                     d_eavesdropping_ratio d))
     (collect_data False busy_rng) =
   Inr ([1, 0, 1, 0, 0, 1, 0, 1, 0, 1, 0, 0, 1, 0, 1, 0, 1, 0, 0],
        [1, 0, 1, 0, 0, 1, 0, 1, 0, 1, 0, 0, 1, 0, 1, 0, 1, 0, 0],
        ''TTT  T T  TTTT                  '', 0)"
  by code_simp

lemma no_discrepancy_verdicts:
  assumes half: "\<And>i. i < n \<Longrightarrow> half ! i = (if i \<in> S then cb ! i else - 1)"
    and cb: "\<And>i. i < n \<Longrightarrow> cb ! i = (if xs ! i = ys ! i then bb ! i else - 1)"
    and agree: "\<And>i. i < n \<Longrightarrow> xs ! i = ys ! i \<Longrightarrow> bb ! i = ab ! i"
  shows "{i. i < n \<and> half ! i \<noteq> - 1 \<and> half ! i \<noteq> (ab ! i :: int)} = {}"
proof -
  have "half ! i = - 1 \<or> half ! i = ab ! i" if "i < n" for i
    using half [OF that] cb [OF that] agree [OF that] by (auto split: if_splits)
  then show ?thesis by blast
qed

lemma ratio_of_count:
  "calculate_eavesdropping_ratio confirmed =
     of_nat (count_list confirmed (CHR ''F'')) / of_nat num_qubits * 100"
  by (simp add: calculate_eavesdropping_ratio_def)

text \<open>
  When Bob's bit equals Alice's bit at every position where their bases match, no
  verdict is a discrepancy, and the two sifted keys are equal.
\<close>

lemma session_without_discrepancy:
  assumes ok: "rng_ok r"
    and agree: "\<And>i. i < num_qubits \<Longrightarrow> draw_alice_bases r i = draw_bob_bases r i \<Longrightarrow>
       bob_measure
         (if en
          then eve_resend (prepare_qubit (draw_alice_bits r i) (draw_alice_bases r i))
                 (draw_eve_bases r i) (sampled_eve r i)
          else prepare_qubit (draw_alice_bits r i) (draw_alice_bases r i))
         (draw_bob_bases r i) (sampled_bob r i) = draw_alice_bits r i"
  shows "\<exists>d. collect_data en r = Inr d \<and> d_eavesdropping_ratio d = 0 \<and>
             d_alice_shared_key d = d_bob_shared_key d"
proof -
  from session_total [OF ok, of en] obtain d where run: "collect_data en r = Inr d"
    by blast
  note ab = session_alice_bits [OF run ok] and as = session_alice_bases [OF run ok]
    and bs = session_bob_bases [OF run ok] and bb = session_bob_bits [OF run ok]
    and ka = session_alice_key [OF run ok] and kb = session_bob_key [OF run ok]
    and cb = session_correct_bits [OF run ok] and half = session_half [OF run ok]
    and cnt = session_count [OF run ok] and ratio = session_ratio_eq [OF run ok]
  have same: "d_bob_bits d ! i = d_alice_bits d ! i"
    if "i < num_qubits" "d_alice_bases d ! i = d_bob_bases d ! i" for i
    using that agree [of i] by (simp add: ab as bs bb)
  have "{i. i < num_qubits \<and> d_half_correct_bits d ! i \<noteq> - 1 \<and>
            d_half_correct_bits d ! i \<noteq> d_alice_bits d ! i} = {}"
    by (rule no_discrepancy_verdicts [OF half cb same])
  then have "d_eavesdropping_ratio d = 0"
    by (simp add: ratio ratio_of_count cnt)
  moreover have "d_alice_shared_key d = d_bob_shared_key d"
    unfolding ka kb by (rule map_cong) (use same in auto)
  ultimately show ?thesis
    using run by blast
qed

lemma session_without_eve:
  assumes ok: "rng_ok r"
  shows "\<exists>d. collect_data False r = Inr d \<and> d_eavesdropping_ratio d = 0 \<and>
             d_alice_shared_key d = d_bob_shared_key d"
  by (rule session_without_discrepancy [OF ok])
     (use rng_okD(2) [OF ok] in \<open>simp add: bob_measure_prepare_qubit\<close>)

lemma session_ratio:
  assumes ok: "rng_ok r"
  shows "\<exists>d. collect_data en r = Inr d \<and> 0 \<le> d_eavesdropping_ratio d \<and>
             d_eavesdropping_ratio d \<le> 100 \<and>
             (\<not> en \<longrightarrow> d_eavesdropping_ratio d = 0)"
proof -
  from session_total [OF ok, of en] obtain d where run: "collect_data en r = Inr d"
    by blast
  note len = session_len(7) [OF run ok] and ratio = session_ratio_eq [OF run ok]
  have "0 \<le> d_eavesdropping_ratio d" "d_eavesdropping_ratio d \<le> 100"
    using ratio_bounds [OF len] by (simp_all add: ratio)
  moreover have "d_eavesdropping_ratio d = 0" if "\<not> en"
    using session_without_eve [OF ok] run that by auto
  ultimately show ?thesis
    using run by blast
qed

lemma false_detected_tally:
  "en \<or> \<not> detected \<Longrightarrow> false_detected (tally en detected res) = false_detected res"
  by (auto simp: tally_def)

lemma run_trials_no_false_positive:
  assumes ok: "\<forall>t. rng_ok (source t)"
  shows "\<exists>res'. run_trials coin source ts res = Inr res' \<and>
                 false_detected res' = false_detected res"
proof (induction ts arbitrary: res)
  case Nil
  show ?case by simp
next
  case (Cons t ts)
  from ok have "rng_ok (source t)" by blast
  from session_ratio [OF this, of "coin t"] obtain d where
    run: "collect_data (coin t) (source t) = Inr d"
    and zero: "\<not> coin t \<longrightarrow> d_eavesdropping_ratio d = 0"
    by blast
  let ?res = "tally (coin t) (0 < d_eavesdropping_ratio d) res"
  have keep: "false_detected ?res = false_detected res"
    by (rule false_detected_tally) (use zero in auto)
  from Cons.IH [of ?res] obtain res' where
    "run_trials coin source ts ?res = Inr res'" "false_detected res' = false_detected ?res"
    by blast
  with run keep show ?case
    by (simp add: Let_def)
qed


lemma prepare_qubits_nth:
  assumes "prepare_qubits alice_bits alice_bases = Inr circuits"
  shows "length circuits = num_qubits"
    and "i < num_qubits \<Longrightarrow> circuits ! i = prepare_qubit (alice_bits ! i) (alice_bases ! i)"
  using assms by (auto simp: prepare_qubits_def split: if_splits)

lemma bob_measures_nth:
  assumes "bob_measures circuits nq draw sampled = Inr (bob_bases, bob_bits)"
  shows "length bob_bits = length circuits"
    and "i < length circuits \<Longrightarrow>
         bob_bits ! i = bob_measure (circuits ! i) (bob_bases ! i) (sampled i)"
  using assms by (auto simp: bob_measures_def Let_def split: if_splits)

lemma eve_intercepts_nth:
  assumes "eve_intercepts circuits nq draw sampled = Inr (eve_bases, eve_tampered_circuits)"
  shows "length eve_tampered_circuits = length circuits"
    and "i < length circuits \<Longrightarrow>
         eve_tampered_circuits ! i = eve_resend (circuits ! i) (eve_bases ! i) (sampled i)"
  using assms by (auto simp: eve_intercepts_def Let_def split: if_splits)

text \<open>
  Claim C1. At every position of a transmission, a party that measures in the basis in
  which the qubit was prepared gets the prepared bit, for every outcome of the sampler:
  \<^verbatim>\<open>bob_measures\<close> on the circuits of \<^verbatim>\<open>prepare_qubits\<close> gives Alice's bit where Bob's
  basis is Alice's; \<^verbatim>\<open>eve_intercepts\<close> measures Alice's bit where Eve's basis is
  Alice's, and sends on the circuit Alice prepared; \<^verbatim>\<open>bob_measures\<close> on the circuits of
  \<^verbatim>\<open>eve_intercepts\<close> gives the bit Eve measured where Bob's basis is Eve's. In a
  session, with or without Eve, Bob's bit is Alice's bit at every position where the
  bases of all the parties that measure are Alice's.
\<close>

theorem matching_basis_measurement_exact:
  assumes i: "i < num_qubits"
  shows "(prepare_qubits alice_bits alice_bases = Inr circuits \<longrightarrow>
          (alice_bits ! i = 0 \<or> alice_bits ! i = 1) \<longrightarrow>
            (bob_measures circuits nq draw_b sampled_b = Inr (bob_bases, bob_bits) \<longrightarrow>
               bob_bases ! i = alice_bases ! i \<longrightarrow> bob_bits ! i = alice_bits ! i) \<and>
            (eve_intercepts circuits nq draw_e sampled_e = Inr (eve_bases, eve_tampered_circuits) \<longrightarrow>
               eve_bases ! i = alice_bases ! i \<longrightarrow>
                 eve_measure (circuits ! i) (eve_bases ! i) (sampled_e i) = alice_bits ! i \<and>
                 eve_tampered_circuits ! i = circuits ! i) \<and>
            (eve_intercepts circuits nq draw_e sampled_e = Inr (eve_bases, eve_tampered_circuits) \<longrightarrow>
             bob_measures eve_tampered_circuits nq draw_b' sampled_b' = Inr (bob_bases', bob_bits') \<longrightarrow>
               (sampled_e i = 0 \<or> sampled_e i = 1) \<longrightarrow> bob_bases' ! i = eve_bases ! i \<longrightarrow>
                 bob_bits' ! i = eve_measure (circuits ! i) (eve_bases ! i) (sampled_e i))) \<and>
         (rng_ok r \<longrightarrow>
            (\<exists>d. collect_data en r = Inr d \<and>
               length (d_alice_bits d) = num_qubits \<and> length (d_bob_bits d) = num_qubits \<and>
               (d_bob_bases d ! i = d_alice_bases d ! i \<longrightarrow>
                (\<forall>eve_bases. d_eve_bases d = Some eve_bases \<longrightarrow> eve_bases ! i = d_alice_bases d ! i) \<longrightarrow>
                  d_bob_bits d ! i = d_alice_bits d ! i)))"
proof (intro conjI impI)
  assume prep: "prepare_qubits alice_bits alice_bases = Inr circuits"
    and bit: "alice_bits ! i = 0 \<or> alice_bits ! i = 1"
  note len = prepare_qubits_nth(1) [OF prep]
  note qc = prepare_qubits_nth(2) [OF prep i]
  {
    assume bob: "bob_measures circuits nq draw_b sampled_b = Inr (bob_bases, bob_bits)"
      and same: "bob_bases ! i = alice_bases ! i"
    from bob_measures_nth(2) [OF bob, of i] i len
    have "bob_bits ! i = bob_measure (circuits ! i) (bob_bases ! i) (sampled_b i)"
      by simp
    then show "bob_bits ! i = alice_bits ! i"
      using bit by (simp add: qc same bob_measure_prepare_qubit)
  }
  {
    assume eve: "eve_intercepts circuits nq draw_e sampled_e = Inr (eve_bases, eve_tampered_circuits)"
      and same: "eve_bases ! i = alice_bases ! i"
    show m: "eve_measure (circuits ! i) (eve_bases ! i) (sampled_e i) = alice_bits ! i"
      using bit by (simp add: qc same eve_measure_prepare_qubit)
    from eve_intercepts_nth(2) [OF eve, of i] i len
    have "eve_tampered_circuits ! i = eve_resend (circuits ! i) (eve_bases ! i) (sampled_e i)"
      by simp
    then show "eve_tampered_circuits ! i = circuits ! i"
      by (simp add: eve_resend_prepare_qubit m) (simp add: qc same)
  }
  {
    assume eve: "eve_intercepts circuits nq draw_e sampled_e = Inr (eve_bases, eve_tampered_circuits)"
      and bob: "bob_measures eve_tampered_circuits nq draw_b' sampled_b' = Inr (bob_bases', bob_bits')"
      and smp: "sampled_e i = 0 \<or> sampled_e i = 1"
      and same: "bob_bases' ! i = eve_bases ! i"
    from eve_intercepts_nth(1) [OF eve] eve_intercepts_nth(2) [OF eve, of i] i len
    have t: "length eve_tampered_circuits = num_qubits"
      "eve_tampered_circuits ! i = eve_resend (circuits ! i) (eve_bases ! i) (sampled_e i)"
      by simp_all
    from bob_measures_nth(2) [OF bob, of i] i t(1)
    have "bob_bits' ! i = bob_measure (eve_tampered_circuits ! i) (bob_bases' ! i) (sampled_b' i)"
      by simp
    then show "bob_bits' ! i = eve_measure (circuits ! i) (eve_bases ! i) (sampled_e i)"
      using matching_basis_qubit [OF bit smp, of "eve_bases ! i" "sampled_b' i" "circuits ! i"]
      by (simp add: t(2) same)
  }
next
  assume ok: "rng_ok r"
  from session_total [OF ok, of en] obtain d where run: "collect_data en r = Inr d"
    by blast
  note ab = session_alice_bits [OF run ok i] and as = session_alice_bases [OF run ok i]
    and bs = session_bob_bases [OF run ok i] and bb = session_bob_bits [OF run ok i]
  have bit: "draw_alice_bits r i = 0 \<or> draw_alice_bits r i = 1"
    by (rule rng_okD(2) [OF ok])
  have "d_bob_bits d ! i = d_alice_bits d ! i"
    if same: "d_bob_bases d ! i = d_alice_bases d ! i"
      and eve: "\<forall>eve_bases. d_eve_bases d = Some eve_bases \<longrightarrow> eve_bases ! i = d_alice_bases d ! i"
  proof (cases en)
    case False
    with bit same show ?thesis
      by (simp add: ab as bs bb bob_measure_prepare_qubit)
  next
    case True
    with session_eve_bases [OF run ok] eve i
    have e: "draw_eve_bases r i = draw_alice_bases r i"
      by (simp add: as)
    from True bit same show ?thesis
      by (simp add: ab as bs bb e eve_resend_prepare_qubit eve_measure_prepare_qubit
          bob_measure_prepare_qubit)
  qed
  with run session_len(1) [OF run ok] session_len(4) [OF run ok]
  show "\<exists>d. collect_data en r = Inr d \<and>
               length (d_alice_bits d) = num_qubits \<and> length (d_bob_bits d) = num_qubits \<and>
               (d_bob_bases d ! i = d_alice_bases d ! i \<longrightarrow>
                (\<forall>eve_bases. d_eve_bases d = Some eve_bases \<longrightarrow> eve_bases ! i = d_alice_bases d ! i) \<longrightarrow>
                  d_bob_bits d ! i = d_alice_bits d ! i)"
    by blast
qed


lemma prepare_all_ones:
  "prepare_qubits (replicate 32 1) (replicate 32 1) = Inr (replicate 32 [Gate_x, Gate_h])"
  by code_simp

lemma bob_measures_all_ones:
  "bob_measures (replicate 32 [Gate_x, Gate_h]) 32 all_ones all_zeros =
     Inr (replicate 32 1, replicate 32 1)"
  by code_simp

lemma eve_intercepts_all_ones:
  "eve_intercepts (replicate 32 [Gate_x, Gate_h]) 32 all_ones all_zeros =
     Inr (replicate 32 1, replicate 32 [Gate_x, Gate_h])"
  by code_simp

lemma busy_session_at_0:
  "map_sum id (\<lambda>d. (d_alice_bits d ! 0, d_alice_bases d ! 0, d_bob_bases d ! 0,
                     map_option (\<lambda>eve_bases. eve_bases ! 0) (d_eve_bases d)))
     (collect_data True busy_rng) = Inr (1, 1, 1, Some 1)"
  by code_simp

theorem matching_basis_measurement_exact_witness:
  "prepare_qubits (replicate 32 1) (replicate 32 1) = Inr (replicate 32 [Gate_x, Gate_h]) \<and>
   bob_measures (replicate 32 [Gate_x, Gate_h]) 32 all_ones all_zeros =
     Inr (replicate 32 1, replicate 32 1) \<and>
   eve_intercepts (replicate 32 [Gate_x, Gate_h]) 32 all_ones all_zeros =
     Inr (replicate 32 1, replicate 32 [Gate_x, Gate_h]) \<and>
   eve_measure (replicate 32 [Gate_x, Gate_h] ! 0) (replicate 32 1 ! 0) (all_zeros 0) =
     replicate 32 1 ! 0 \<and>
   rng_ok busy_rng \<and>
   (\<exists>d. collect_data True busy_rng = Inr d \<and>
        d_bob_bases d ! 0 = d_alice_bases d ! 0 \<and>
        map_option (\<lambda>eve_bases. eve_bases ! 0) (d_eve_bases d) = Some (d_alice_bases d ! 0) \<and>
        d_alice_bits d ! 0 = 1 \<and> d_bob_bits d ! 0 = 1)"
proof -
  have i: "0 < num_qubits"
    by (simp add: num_qubits_def)
  note inst = matching_basis_measurement_exact [OF i,
      where alice_bits = "replicate 32 1" and alice_bases = "replicate 32 1"
        and circuits = "replicate 32 [Gate_x, Gate_h]" and nq = 32
        and draw_b = all_ones and sampled_b = all_zeros
        and bob_bases = "replicate 32 1" and bob_bits = "replicate 32 1"
        and draw_e = all_ones and sampled_e = all_zeros
        and eve_bases = "replicate 32 1"
        and eve_tampered_circuits = "replicate 32 [Gate_x, Gate_h]"
        and r = busy_rng and en = True]
  from inst have measured:
    "eve_measure (replicate 32 [Gate_x, Gate_h] ! 0) (replicate 32 1 ! 0) (all_zeros 0) =
       replicate 32 1 ! 0"
    by (simp add: prepare_all_ones eve_intercepts_all_ones)
  from inst rng_ok_busy_rng obtain d where run: "collect_data True busy_rng = Inr d"
    and same: "d_bob_bases d ! 0 = d_alice_bases d ! 0 \<longrightarrow>
          (\<forall>eve_bases. d_eve_bases d = Some eve_bases \<longrightarrow> eve_bases ! 0 = d_alice_bases d ! 0) \<longrightarrow>
          d_bob_bits d ! 0 = d_alice_bits d ! 0"
    by blast
  from busy_session_at_0 run
  have at0: "d_alice_bits d ! 0 = 1" "d_alice_bases d ! 0 = 1" "d_bob_bases d ! 0 = 1"
    "map_option (\<lambda>eve_bases. eve_bases ! 0) (d_eve_bases d) = Some 1"
    by simp_all
  from at0(4) have "\<forall>eve_bases. d_eve_bases d = Some eve_bases \<longrightarrow> eve_bases ! 0 = d_alice_bases d ! 0"
    by (auto simp: at0(2))
  with same at0 have "d_bob_bits d ! 0 = 1"
    by simp
  with run at0 measured rng_ok_busy_rng show ?thesis
    by (simp add: prepare_all_ones bob_measures_all_ones eve_intercepts_all_ones)
qed

text \<open>
  Claim C3. In every session the two sifted keys are Alice's bits and Bob's bits at the
  positions where Alice's basis equals Bob's, in ascending order of the position (the
  positions are filtered out of the ascending range), so both keys have as many
  elements as there are positions with matching bases.
\<close>

theorem sifted_keys_at_matching_positions:
  assumes "rng_ok r"
  shows "\<exists>d. collect_data en r = Inr d \<and>
    length (d_alice_bits d) = num_qubits \<and> length (d_alice_bases d) = num_qubits \<and>
    length (d_bob_bits d) = num_qubits \<and> length (d_bob_bases d) = num_qubits \<and>
    d_alice_shared_key d =
      map (\<lambda>i. d_alice_bits d ! i)
        (filter (\<lambda>i. d_alice_bases d ! i = d_bob_bases d ! i) [0..<num_qubits]) \<and>
    d_bob_shared_key d =
      map (\<lambda>i. d_bob_bits d ! i)
        (filter (\<lambda>i. d_alice_bases d ! i = d_bob_bases d ! i) [0..<num_qubits]) \<and>
    length (d_alice_shared_key d) =
      card {i. i < num_qubits \<and> d_alice_bases d ! i = d_bob_bases d ! i} \<and>
    length (d_bob_shared_key d) =
      card {i. i < num_qubits \<and> d_alice_bases d ! i = d_bob_bases d ! i}"
proof -
  from session_total [OF assms, of en] obtain d where run: "collect_data en r = Inr d"
    by blast
  note len = session_len [OF run assms]
    and ka = session_alice_key [OF run assms] and kb = session_bob_key [OF run assms]
  have "length (d_alice_shared_key d) =
      card {i. i < num_qubits \<and> d_alice_bases d ! i = d_bob_bases d ! i}"
    by (simp only: ka length_map length_filter_upt)
  moreover have "length (d_bob_shared_key d) =
      card {i. i < num_qubits \<and> d_alice_bases d ! i = d_bob_bases d ! i}"
    by (simp only: kb length_map length_filter_upt)
  ultimately show ?thesis
    using run len(1-4) ka kb by blast
qed

theorem sifted_keys_at_matching_positions_witness:
  "rng_ok busy_rng \<and>
   (\<exists>d. collect_data True busy_rng = Inr d \<and>
      d_alice_shared_key d =
        map (\<lambda>i. d_alice_bits d ! i)
          (filter (\<lambda>i. d_alice_bases d ! i = d_bob_bases d ! i) [0..<num_qubits]) \<and>
      d_bob_shared_key d =
        map (\<lambda>i. d_bob_bits d ! i)
          (filter (\<lambda>i. d_alice_bases d ! i = d_bob_bases d ! i) [0..<num_qubits]) \<and>
      card {i. i < num_qubits \<and> d_alice_bases d ! i = d_bob_bases d ! i} = 19 \<and>
      d_alice_shared_key d = [1, 0, 1, 0, 0, 1, 0, 1, 0, 1, 0, 0, 1, 0, 1, 0, 1, 0, 0] \<and>
      d_bob_shared_key d = [1, 0, 1, 1, 0, 1, 0, 1, 0, 1, 0, 0, 1, 0, 1, 1, 1, 0, 0])"
proof -
  from sifted_keys_at_matching_positions [OF rng_ok_busy_rng, of True] obtain d where
    run: "collect_data True busy_rng = Inr d"
    and ka: "d_alice_shared_key d =
        map (\<lambda>i. d_alice_bits d ! i)
          (filter (\<lambda>i. d_alice_bases d ! i = d_bob_bases d ! i) [0..<num_qubits])"
    and kb: "d_bob_shared_key d =
        map (\<lambda>i. d_bob_bits d ! i)
          (filter (\<lambda>i. d_alice_bases d ! i = d_bob_bases d ! i) [0..<num_qubits])"
    and len: "length (d_alice_shared_key d) =
        card {i. i < num_qubits \<and> d_alice_bases d ! i = d_bob_bases d ! i}"
    by blast
  from busy_session_with_eve run
  have keys: "d_alice_shared_key d = [1, 0, 1, 0, 0, 1, 0, 1, 0, 1, 0, 0, 1, 0, 1, 0, 1, 0, 0]"
    "d_bob_shared_key d = [1, 0, 1, 1, 0, 1, 0, 1, 0, 1, 0, 0, 1, 0, 1, 1, 1, 0, 0]"
    by simp_all
  from len have "card {i. i < num_qubits \<and> d_alice_bases d ! i = d_bob_bases d ! i} = 19"
    by (simp add: keys(1))
  with run ka kb keys rng_ok_busy_rng show ?thesis
    by blast
qed

text \<open>
  Claim C4. In every session without eavesdropping the sifted key of Alice and the
  sifted key of Bob are the same list: they agree at every sifted position.
\<close>

theorem no_eavesdropping_keys_agree:
  assumes "rng_ok r"
  shows "\<exists>d. collect_data False r = Inr d \<and> d_eve_bases d = None \<and>
             d_alice_shared_key d = d_bob_shared_key d"
proof -
  from session_without_eve [OF assms] obtain d where
    run: "collect_data False r = Inr d" and keys: "d_alice_shared_key d = d_bob_shared_key d"
    by blast
  from session_eve_bases [OF run assms] have "d_eve_bases d = None"
    by simp
  with run keys show ?thesis
    by blast
qed

theorem no_eavesdropping_keys_agree_witness:
  "rng_ok busy_rng \<and>
   (\<exists>d. collect_data False busy_rng = Inr d \<and> d_eve_bases d = None \<and>
        d_alice_shared_key d = d_bob_shared_key d \<and>
        d_bob_shared_key d = [1, 0, 1, 0, 0, 1, 0, 1, 0, 1, 0, 0, 1, 0, 1, 0, 1, 0, 0])"
proof -
  from no_eavesdropping_keys_agree [OF rng_ok_busy_rng] obtain d where
    run: "collect_data False busy_rng = Inr d" and "d_eve_bases d = None"
    and "d_alice_shared_key d = d_bob_shared_key d"
    by blast
  moreover from busy_session_without_eve run
  have "d_bob_shared_key d = [1, 0, 1, 0, 0, 1, 0, 1, 0, 1, 0, 0, 1, 0, 1, 0, 1, 0, 0]"
    by simp
  ultimately show ?thesis
    using rng_ok_busy_rng by blast
qed

text \<open>
  Claim C5. In every session the eavesdropping ratio is the number of discrepancy
  verdicts (\<open>F\<close>), divided by \<open>num_qubits\<close>, the length of the transmission, times 100. The
  discrepancy verdicts are the disclosed positions whose bit differs from Alice's bit.
\<close>

theorem eavesdropping_ratio_over_num_qubits:
  assumes "rng_ok r"
  shows "\<exists>d. collect_data en r = Inr d \<and>
    length (d_alice_bits d) = num_qubits \<and>
    d_eavesdropping_ratio d =
      of_nat (count_list (d_confirmed_by_alice d) (CHR ''F'')) / of_nat num_qubits * 100 \<and>
    count_list (d_confirmed_by_alice d) (CHR ''F'') =
      card {i. i < num_qubits \<and> d_half_correct_bits d ! i \<noteq> - 1 \<and>
               d_half_correct_bits d ! i \<noteq> d_alice_bits d ! i}"
proof -
  from session_total [OF assms, of en] obtain d where run: "collect_data en r = Inr d"
    by blast
  from session_len(1) [OF run assms] session_count [OF run assms] session_ratio_eq [OF run assms]
    run show ?thesis
    by (auto simp: ratio_of_count)
qed

theorem eavesdropping_ratio_over_num_qubits_witness:
  "rng_ok busy_rng \<and>
   (\<exists>d. collect_data True busy_rng = Inr d \<and>
      d_eavesdropping_ratio d =
        of_nat (count_list (d_confirmed_by_alice d) (CHR ''F'')) / of_nat num_qubits * 100 \<and>
      d_confirmed_by_alice d = ''TTT  F T  TTTT                  '' \<and>
      count_list (d_confirmed_by_alice d) (CHR ''F'') = 1 \<and>
      d_eavesdropping_ratio d = 25 / 8)"
proof -
  from eavesdropping_ratio_over_num_qubits [OF rng_ok_busy_rng, of True] obtain d where
    run: "collect_data True busy_rng = Inr d"
    and ratio: "d_eavesdropping_ratio d =
        of_nat (count_list (d_confirmed_by_alice d) (CHR ''F'')) / of_nat num_qubits * 100"
    by blast
  from busy_session_with_eve run
  have conf: "d_confirmed_by_alice d = ''TTT  F T  TTTT                  ''"
    and val: "d_eavesdropping_ratio d = 25 / 8"
    by simp_all
  have "count_list (d_confirmed_by_alice d) (CHR ''F'') = 1"
    unfolding conf by code_simp
  with run ratio conf val rng_ok_busy_rng show ?thesis
    by blast
qed

text \<open>
  Claim C6. In every session the eavesdropping ratio lies between 0 and 100, and it is 0
  when eavesdropping is disabled, so such a session is not classified as detected
  (the ratio is not above 0); in the harness the counter of detections without an
  eavesdropper stays 0 for every number of tests.
\<close>

theorem ratio_bounded_and_no_false_positive:
  assumes "\<forall>t. rng_ok (source t)"
  shows "(\<exists>d. collect_data en (source t) = Inr d \<and>
            0 \<le> d_eavesdropping_ratio d \<and> d_eavesdropping_ratio d \<le> 100 \<and>
            (\<not> en \<longrightarrow> d_eavesdropping_ratio d = 0 \<and> \<not> 0 < d_eavesdropping_ratio d)) \<and>
         (\<exists>res. run_tests num_tests coin source = Inr res \<and> false_detected res = 0)"
proof -
  from assms have "rng_ok (source t)" by blast
  from session_ratio [OF this, of en]
  have "\<exists>d. collect_data en (source t) = Inr d \<and>
            0 \<le> d_eavesdropping_ratio d \<and> d_eavesdropping_ratio d \<le> 100 \<and>
            (\<not> en \<longrightarrow> d_eavesdropping_ratio d = 0 \<and> \<not> 0 < d_eavesdropping_ratio d)"
    by auto
  moreover from run_trials_no_false_positive [OF assms, of coin "[0..<nat num_tests]" no_results]
  have "\<exists>res. run_tests num_tests coin source = Inr res \<and> false_detected res = 0"
    by (simp add: run_tests_def no_results_def)
  ultimately show ?thesis by blast
qed

theorem ratio_bounded_and_no_false_positive_witness:
  "(\<forall>t. rng_ok (busy_source t)) \<and>
   (\<exists>d. collect_data False (busy_source 0) = Inr d \<and> d_eavesdropping_ratio d = 0) \<and>
   (\<exists>d. collect_data True (busy_source 0) = Inr d \<and>
        0 \<le> d_eavesdropping_ratio d \<and> d_eavesdropping_ratio d \<le> 100) \<and>
   (\<exists>res. run_tests 3 alternating_coin busy_source = Inr res \<and> false_detected res = 0)"
proof -
  have ok: "\<forall>t. rng_ok (busy_source t)"
    by (simp add: busy_source_def rng_ok_busy_rng)
  from ratio_bounded_and_no_false_positive [OF ok, of False 0 3 alternating_coin]
    ratio_bounded_and_no_false_positive [OF ok, of True 0 3 alternating_coin] ok
  show ?thesis by auto
qed

lemma session_valid_indices:
  assumes run: "collect_data en r = Inr d" and ok: "rng_ok r"
  shows "set (valid_indices_of (d_correct_bits d)) =
           {i. i < num_qubits \<and> d_alice_bases d ! i = d_bob_bases d ! i}"
    and "length (valid_indices_of (d_correct_bits d)) =
           card {i. i < num_qubits \<and> d_alice_bases d ! i = d_bob_bases d ! i}"
proof -
  have bit: "d_bob_bits d ! i \<noteq> - 1" if "i < num_qubits" for i
  proof -
    have "d_bob_bits d ! i = 0 \<or> d_bob_bits d ! i = 1"
      unfolding session_bob_bits [OF run ok that]
      by (rule bob_measure_bit [OF rng_okD(4) [OF ok]])
    then show ?thesis by auto
  qed
  show set: "set (valid_indices_of (d_correct_bits d)) =
           {i. i < num_qubits \<and> d_alice_bases d ! i = d_bob_bases d ! i}"
    using session_correct_bits [OF run ok] bit
    by (auto simp: set_valid_indices_of session_len(5) [OF run ok] split: if_splits)
  have "card (set (valid_indices_of (d_correct_bits d))) = length (valid_indices_of (d_correct_bits d))"
    by (rule distinct_card) simp
  with set show "length (valid_indices_of (d_correct_bits d)) =
           card {i. i < num_qubits \<and> d_alice_bases d ! i = d_bob_bases d ! i}"
    by simp
qed

text \<open>
  What the sampling step does for every sample the generator can draw: the disclosed
  check positions are the elements of the sample, which has no element twice and
  floor(n/2) elements for n positions with matching bases; the residual outcome holds
  Bob's bits at the other positions with matching bases; and the disclosed and the
  residual positions are disjoint and together are the positions with matching bases.
  With which probability each sample is drawn is the law of the generator, which the
  model does not have.
\<close>

lemma disclosed_and_residual_partition:
  assumes "rng_ok r"
  shows "\<exists>d. collect_data en r = Inr d \<and>
    (let matching = {i. i < num_qubits \<and> d_alice_bases d ! i = d_bob_bases d ! i};
         disclosed = {i. i < num_qubits \<and> d_half_correct_bits d ! i \<noteq> - 1};
         residual = {i. i < num_qubits \<and> d_outcome d ! i \<noteq> - 1};
         sample = pick_half r (valid_indices_of (d_correct_bits d))
                    (length (valid_indices_of (d_correct_bits d)) div 2)
     in set (valid_indices_of (d_correct_bits d)) = matching \<and>
        disclosed = set sample \<and> distinct sample \<and> length sample = card matching div 2 \<and>
        disclosed \<subseteq> matching \<and> card disclosed = card matching div 2 \<and>
        disclosed \<inter> residual = {} \<and> disclosed \<union> residual = matching \<and>
        (\<forall>i \<in> disclosed. d_half_correct_bits d ! i = d_bob_bits d ! i) \<and>
        (\<forall>i \<in> residual. d_outcome d ! i = d_bob_bits d ! i))"
proof -
  from session_total [OF assms, of en] obtain d where run: "collect_data en r = Inr d"
    by blast
  let ?matching = "{i. i < num_qubits \<and> d_alice_bases d ! i = d_bob_bases d ! i}"
  let ?disclosed = "{i. i < num_qubits \<and> d_half_correct_bits d ! i \<noteq> - 1}"
  let ?residual = "{i. i < num_qubits \<and> d_outcome d ! i \<noteq> - 1}"
  let ?sample = "pick_half r (valid_indices_of (d_correct_bits d))
                    (length (valid_indices_of (d_correct_bits d)) div 2)"
  note cb = session_correct_bits [OF run assms]
    and half = session_half [OF run assms]
    and out = session_outcome [OF run assms]
    and smp = session_sample [OF run assms]
    and vi = session_valid_indices [OF run assms]
  have usable: "d_correct_bits d ! i \<noteq> - 1 \<longleftrightarrow> d_alice_bases d ! i = d_bob_bases d ! i"
    if "i < num_qubits" for i
  proof -
    have "i \<in> set (valid_indices_of (d_correct_bits d)) \<longleftrightarrow> i \<in> ?matching"
      by (simp only: vi(1))
    with that show ?thesis
      by (simp add: set_valid_indices_of session_len(5) [OF run assms])
  qed
  have bits: "d_correct_bits d ! i = d_bob_bits d ! i"
    if "i < num_qubits" "d_alice_bases d ! i = d_bob_bases d ! i" for i
    using that by (simp add: cb)
  have in_sample: "i < num_qubits \<and> d_alice_bases d ! i = d_bob_bases d ! i"
    if "i \<in> set ?sample" for i
  proof -
    from that smp(3) have "i < num_qubits" "d_correct_bits d ! i \<noteq> - 1"
      by blast+
    with usable [of i] show ?thesis by simp
  qed
  have disclosed_iff: "d_half_correct_bits d ! i \<noteq> - 1 \<longleftrightarrow> i \<in> set ?sample"
    if "i < num_qubits" for i
    using in_sample [of i] usable [OF that] by (simp add: half [OF that])
  have residual_iff: "d_outcome d ! i \<noteq> - 1 \<longleftrightarrow>
      d_alice_bases d ! i = d_bob_bases d ! i \<and> i \<notin> set ?sample"
    if "i < num_qubits" for i
    using disclosed_iff [OF that] usable [OF that] out [OF that]
    by (cases "d_half_correct_bits d ! i = - 1") auto
  have disc: "?disclosed = set ?sample"
  proof (rule set_eqI)
    fix i
    show "i \<in> ?disclosed \<longleftrightarrow> i \<in> set ?sample"
      using disclosed_iff [of i] in_sample [of i] by blast
  qed
  have res: "?residual = ?matching - set ?sample"
  proof (rule set_eqI)
    fix i
    show "i \<in> ?residual \<longleftrightarrow> i \<in> ?matching - set ?sample"
      using residual_iff [of i] by blast
  qed
  have incl: "?disclosed \<subseteq> ?matching"
    unfolding disc using in_sample by blast
  have inter: "?disclosed \<inter> ?residual = {}"
    unfolding disc res by blast
  have union: "?disclosed \<union> ?residual = ?matching"
    using incl unfolding res disc by blast
  have len_sample: "length ?sample = card ?matching div 2"
    using smp(2) vi(2) by simp
  have card_disc: "card ?disclosed = card ?matching div 2"
    using distinct_card [OF smp(1)] len_sample by (simp only: disc)
  have disc_bits: "\<forall>i \<in> ?disclosed. d_half_correct_bits d ! i = d_bob_bits d ! i"
  proof
    fix i assume "i \<in> ?disclosed"
    then have i: "i < num_qubits" and "d_half_correct_bits d ! i \<noteq> - 1"
      by simp_all
    with disclosed_iff [OF i] have s: "i \<in> set ?sample" by simp
    with half [OF i] bits [OF i] in_sample [OF s]
    show "d_half_correct_bits d ! i = d_bob_bits d ! i"
      by simp
  qed
  have res_bits: "\<forall>i \<in> ?residual. d_outcome d ! i = d_bob_bits d ! i"
  proof
    fix i assume "i \<in> ?residual"
    then have i: "i < num_qubits" and o: "d_outcome d ! i \<noteq> - 1"
      by simp_all
    from o out [OF i] have "d_outcome d ! i = d_correct_bits d ! i"
      by (simp split: if_splits)
    moreover from o residual_iff [OF i] have "d_alice_bases d ! i = d_bob_bases d ! i"
      by simp
    ultimately show "d_outcome d ! i = d_bob_bits d ! i"
      using bits [OF i] by simp
  qed
  show ?thesis
    unfolding Let_def
    by (rule exI [of _ d])
       (intro conjI run vi(1) disc smp(1) len_sample incl card_disc inter union disc_bits res_bits)
qed

lemma disclosed_and_residual_partition_busy:
  "rng_ok busy_rng \<and>
   (\<exists>d. collect_data True busy_rng = Inr d \<and>
     card {i. i < num_qubits \<and> d_half_correct_bits d ! i \<noteq> - 1} =
       card {i. i < num_qubits \<and> d_alice_bases d ! i = d_bob_bases d ! i} div 2 \<and>
     {i. i < num_qubits \<and> d_half_correct_bits d ! i \<noteq> - 1} \<inter>
       {i. i < num_qubits \<and> d_outcome d ! i \<noteq> - 1} = {} \<and>
     {i. i < num_qubits \<and> d_half_correct_bits d ! i \<noteq> - 1} \<union>
       {i. i < num_qubits \<and> d_outcome d ! i \<noteq> - 1} =
       {i. i < num_qubits \<and> d_alice_bases d ! i = d_bob_bases d ! i})"
  using disclosed_and_residual_partition [OF rng_ok_busy_rng, of True] rng_ok_busy_rng
  unfolding Let_def
  apply (elim exE conjE)
  apply (intro conjI exI)
      apply assumption+
  done

section \<open>Inputs for which the specification asks for an error\<close>

lemma randomly_store_half_few:
  assumes "choice_draw pick" and "length (valid_indices_of cb) < 2"
  shows "randomly_store_half cb pick = Inr (replicate (length cb) (- 1))"
proof -
  from assms(2) have k: "length (valid_indices_of cb) div 2 = 0"
    by simp
  have "length (pick (valid_indices_of cb) 0) = 0"
    by (rule choice_drawD(1) [OF assms(1)]) simp_all
  then have "pick (valid_indices_of cb) 0 = []"
    by simp
  then show ?thesis
    by (simp add: randomly_store_half_Inr [OF assms(1)] k map_replicate_const)
qed

lemma valid_indices_of_none: "valid_indices_of (replicate n (- 1)) = []"
  by (simp add: valid_indices_of_def filter_empty_conv)

lemma valid_indices_of_one: "length (valid_indices_of (b # replicate n (- 1))) < 2"
proof -
  have "x = 0" if "x < length (b # replicate n (- 1))" "(b # replicate n (- 1)) ! x \<noteq> - 1" for x
    using that by (cases x) simp_all
  then have "set (valid_indices_of (b # replicate n (- 1))) \<subseteq> {0}"
    unfolding set_valid_indices_of by blast
  then have "card (set (valid_indices_of (b # replicate n (- 1)))) \<le> card {0::nat}"
    by (intro card_mono) simp_all
  then show ?thesis
    by (simp add: distinct_card)
qed

text \<open>
  Claim C8, as the code has it. The sampling step of \<^verbatim>\<open>randomly_store_half\<close> raises
  nothing: it returns a list of the length of its input for every input and every draw,
  and when fewer than 2 positions are usable the sample is empty, so the result holds
  the sentinel at every position. The counterexample runs it on the array of a session
  without a matching basis and on an array with one usable position.
\<close>

theorem sampling_never_fails:
  assumes "choice_draw pick"
  shows "(\<exists>half. randomly_store_half cb pick = Inr half \<and> length half = length cb) \<and>
         (length (valid_indices_of cb) < 2 \<longrightarrow>
            randomly_store_half cb pick = Inr (replicate (length cb) (- 1)))"
  using randomly_store_half_few [OF assms, of cb]
  by (simp add: randomly_store_half_Inr [OF assms])

theorem sampling_never_fails_witness:
  "choice_draw first_k \<and>
   length (valid_indices_of (1 # replicate 31 (- 1))) < 2 \<and>
   randomly_store_half (1 # replicate 31 (- 1)) first_k = Inr (replicate 32 (- 1))"
  using sampling_never_fails [OF choice_draw_first_k, of "1 # replicate 31 (- 1)"]
    choice_draw_first_k valid_indices_of_one [of 1 31]
  by simp

theorem sampling_error_counterexample:
  "valid_indices_of (replicate 32 (- 1)) = [] \<and>
   randomly_store_half (replicate 32 (- 1)) first_k = Inr (replicate 32 (- 1)) \<and>
   length (valid_indices_of (1 # replicate 31 (- 1))) < 2 \<and>
   randomly_store_half (1 # replicate 31 (- 1)) first_k = Inr (replicate 32 (- 1))"
  using randomly_store_half_few [OF choice_draw_first_k, of "replicate 32 (- 1)"]
    randomly_store_half_few [OF choice_draw_first_k, of "1 # replicate 31 (- 1)"]
    valid_indices_of_one [of 1 31]
  by (simp add: valid_indices_of_none)

text \<open>The session in which no basis of Bob matches Alice's has no usable position.\<close>

lemma mismatch_session:
  "\<exists>d. collect_data False mismatch_rng = Inr d \<and>
       d_correct_bits d = replicate num_qubits (- 1) \<and>
       d_half_correct_bits d = replicate num_qubits (- 1)"
proof -
  from session_total [OF rng_ok_mismatch_rng, of False] obtain d
    where run: "collect_data False mismatch_rng = Inr d"
    by blast
  note p = session_len [OF run rng_ok_mismatch_rng]
  have cb: "d_correct_bits d ! i = - 1" if "i < num_qubits" for i
    using session_correct_bits [OF run rng_ok_mismatch_rng that]
      session_alice_bases [OF run rng_ok_mismatch_rng that]
      session_bob_bases [OF run rng_ok_mismatch_rng that]
    by (simp add: mismatch_rng_def)
  have half: "d_half_correct_bits d ! i = - 1" if "i < num_qubits" for i
    using session_half [OF run rng_ok_mismatch_rng that] cb [OF that] by simp
  have "d_correct_bits d = replicate num_qubits (- 1)"
    by (rule nth_equalityI) (simp_all add: p cb)
  moreover have "d_half_correct_bits d = replicate num_qubits (- 1)"
    by (rule nth_equalityI) (simp_all add: p half)
  ultimately show ?thesis
    using run by blast
qed

text \<open>
  Claim C9, as the code has it. \<^verbatim>\<open>run_tests\<close> with a number of tests that is zero or
  negative runs no session and returns the table of four zeros; it raises nothing. The
  length of a transmission is the module constant 32, not an argument of a session.
\<close>

theorem non_positive_num_tests_runs_nothing:
  assumes "num_tests \<le> 0"
  shows "run_tests num_tests coin source = Inr no_results \<and> num_qubits = 32"
  using assms by (simp add: run_tests_def num_qubits_def)

theorem non_positive_num_tests_runs_nothing_witness:
  "run_tests (- 5) alternating_coin busy_source = Inr no_results \<and> num_qubits = 32"
  using non_positive_num_tests_runs_nothing [of "- 5" alternating_coin busy_source]
  by simp

theorem invalid_configuration_counterexample:
  "run_tests 0 alternating_coin busy_source =
     Inr \<lparr> true_detected = 0, true_non_detected = 0, false_detected = 0, false_non_detected = 0 \<rparr> \<and>
   run_tests (- 5) alternating_coin busy_source =
     Inr \<lparr> true_detected = 0, true_non_detected = 0, false_detected = 0, false_non_detected = 0 \<rparr>"
  by (simp add: run_tests_def no_results_def)

lemma quiet_session:
  "\<exists>d. collect_data True quiet_rng = Inr d \<and> d_eavesdropping_ratio d = 0 \<and>
       d_alice_shared_key d = d_bob_shared_key d"
  by (rule session_without_discrepancy [OF rng_ok_quiet_rng])
     (simp add: quiet_rng_def eve_resend_prepare_qubit eve_measure_prepare_qubit
        bob_measure_prepare_qubit)

lemma lucky_session:
  "\<exists>d. collect_data True lucky_rng = Inr d \<and> d_eavesdropping_ratio d = 0 \<and>
       d_alice_shared_key d = d_bob_shared_key d"
  by (rule session_without_discrepancy [OF rng_ok_lucky_rng])
     (simp add: lucky_rng_def eve_resend_def eve_measure_def bob_measure_def run_measure_def
        most_frequent_def final_state_def prepare_qubit_def)

lemma run_tests_one:
  assumes "collect_data True (source 0) = Inr d" and "d_eavesdropping_ratio d = 0"
  shows "run_tests 1 always_eve source = Inr (no_results\<lparr>true_non_detected := 1\<rparr>)"
  using assms by (simp add: run_tests_def always_eve_def tally_def no_results_def)

text \<open>
  Claim C10. There are draws for which a session with eavesdropping enabled has the
  eavesdropping ratio 0 and is classified as not detected: draws in which Eve's basis
  equals Alice's at every position, and draws in which Eve's basis differs from
  Alice's at every position but the sampler favours the bit Alice sent. With the first
  draws the harness counts one run with an eavesdropper as not detected.
\<close>

theorem undetected_eavesdropping_possible:
  "(\<exists>r. rng_ok r \<and> (\<forall>i. draw_eve_bases r i = draw_alice_bases r i) \<and>
        (\<exists>d. collect_data True r = Inr d \<and> d_eavesdropping_ratio d = 0 \<and>
             \<not> 0 < d_eavesdropping_ratio d)) \<and>
   (\<exists>r. rng_ok r \<and> (\<forall>i. draw_eve_bases r i \<noteq> draw_alice_bases r i) \<and>
        (\<exists>d. collect_data True r = Inr d \<and> d_eavesdropping_ratio d = 0 \<and>
             \<not> 0 < d_eavesdropping_ratio d)) \<and>
   run_tests 1 always_eve quiet_source = Inr (no_results\<lparr>true_non_detected := 1\<rparr>)"
proof -
  from quiet_session obtain d where
    q: "collect_data True quiet_rng = Inr d" "d_eavesdropping_ratio d = 0"
    by blast
  from lucky_session obtain d' where
    l: "collect_data True lucky_rng = Inr d'" "d_eavesdropping_ratio d' = 0"
    by blast
  have "rng_ok quiet_rng \<and> (\<forall>i. draw_eve_bases quiet_rng i = draw_alice_bases quiet_rng i) \<and>
        (\<exists>d. collect_data True quiet_rng = Inr d \<and> d_eavesdropping_ratio d = 0 \<and>
             \<not> 0 < d_eavesdropping_ratio d)"
    using q rng_ok_quiet_rng by (simp add: quiet_rng_def)
  moreover have "rng_ok lucky_rng \<and> (\<forall>i. draw_eve_bases lucky_rng i \<noteq> draw_alice_bases lucky_rng i) \<and>
        (\<exists>d. collect_data True lucky_rng = Inr d \<and> d_eavesdropping_ratio d = 0 \<and>
             \<not> 0 < d_eavesdropping_ratio d)"
    using l rng_ok_lucky_rng by (simp add: lucky_rng_def)
  moreover have "run_tests 1 always_eve quiet_source = Inr (no_results\<lparr>true_non_detected := 1\<rparr>)"
    by (rule run_tests_one [of quiet_source d]) (simp_all add: quiet_source_def q)
  ultimately show ?thesis
    by blast
qed

theorem undetected_eavesdropping_possible_witness:
  "\<exists>r. rng_ok r \<and> (\<exists>d. collect_data True r = Inr d \<and> \<not> 0 < d_eavesdropping_ratio d)"
  using undetected_eavesdropping_possible by blast

end
